theory Spec2Isabelle
  imports Main "HOL-Library.Word"
begin

section \<open>Outcomes of a call\<close>

text \<open>
  A Go call either returns, panics at run time, or blocks on a channel operation that no
  other goroutine can complete. The model is sequential (one goroutine), so a channel
  operation that is not ready stays blocked for ever. Both ways of not returning are
  values of \<open>fault\<close>; a call that returns \<open>x\<close> is \<open>Inr x\<close>.
\<close>

datatype fault = Panic | BlocksForever

fun thenR :: "fault + 'a \<Rightarrow> ('a \<Rightarrow> fault + 'b) \<Rightarrow> fault + 'b" where
  "thenR (Inl f) g = Inl f"
| "thenR (Inr x) g = g x"

section \<open>The ring buffer (package internal\_models, type Buffer)\<close>

text \<open>
  \<open>buf\<close> is a buffered channel: \<open>cap\<close> is the capacity given to \<open>make\<close>, \<open>buf\<close> the queued
  elements with the oldest first. \<open>drops\<close> is an \<open>int64\<close>, so \<open>drops++\<close> is addition in
  64-bit words.
\<close>

record 'm Buffer =
  cap :: nat
  buf :: "'m list"
  drops :: "64 word"

text \<open>
  \<open>make(chan T, size)\<close> panics on a negative size. Memory is not modelled: every
  non-negative size gives a buffer, also one beyond what the runtime can allocate.
\<close>

definition NewBuffer :: "int \<Rightarrow> fault + 'm Buffer" where
  "NewBuffer sz =
     (if sz < 0 then Inl Panic
      else Inr \<lparr>cap = nat sz, buf = [], drops = 0\<rparr>)"

definition IsEmpty :: "'m Buffer \<Rightarrow> bool" where
  "IsEmpty b = (length (buf b) = 0)"

definition Len :: "'m Buffer \<Rightarrow> int" where
  "Len b = int (length (buf b))"

text \<open>The blocking receive \<open><-b.buf\<close> and the blocking send \<open>b.buf <- m\<close>.\<close>

definition chan_recv :: "'m Buffer \<Rightarrow> fault + ('m \<times> 'm Buffer)" where
  "chan_recv b =
     (case buf b of
        [] \<Rightarrow> Inl BlocksForever
      | x # xs \<Rightarrow> Inr (x, b\<lparr>buf := xs\<rparr>))"

definition chan_send :: "'m Buffer \<Rightarrow> 'm \<Rightarrow> fault + 'm Buffer" where
  "chan_send b m =
     (if length (buf b) < cap b then Inr (b\<lparr>buf := buf b @ [m]\<rparr>)
      else Inl BlocksForever)"

text \<open>
  One pass of the loop of \<open>Add\<close>: the \<open>select\<close> takes the send when the channel has room,
  and otherwise the \<open>default\<close> branch, which counts a drop, receives one element and sends.
\<close>

definition add_one :: "'m Buffer \<Rightarrow> 'm \<Rightarrow> fault + 'm Buffer" where
  "add_one b m =
     (if length (buf b) < cap b then Inr (b\<lparr>buf := buf b @ [m]\<rparr>)
      else thenR (chan_recv (b\<lparr>drops := drops b + 1\<rparr>)) (\<lambda>(_, b'). chan_send b' m))"

fun Add :: "'m Buffer \<Rightarrow> 'm list \<Rightarrow> fault + 'm Buffer" where
  "Add b [] = Inr b"
| "Add b (m # ms) = thenR (add_one b m) (\<lambda>b'. Add b' ms)"

definition min_int :: "int \<Rightarrow> int \<Rightarrow> int" where
  "min_int a b = (if b < a then b else a)"

text \<open>
  The loop of \<open>Batch\<close>: \<open>k\<close> more receives, each stored at the next index of \<open>out\<close>.
\<close>

fun batch_loop :: "nat \<Rightarrow> 'm Buffer \<Rightarrow> 'm list \<Rightarrow> fault + ('m list \<times> 'm Buffer)" where
  "batch_loop 0 b out = Inr (out, b)"
| "batch_loop (Suc k) b out =
     thenR (chan_recv b) (\<lambda>(x, b'). batch_loop k b' (out @ [x]))"

text \<open>\<open>make([]T, n)\<close> panics on a negative length.\<close>

definition Batch :: "'m Buffer \<Rightarrow> int \<Rightarrow> fault + ('m list \<times> 'm Buffer)" where
  "Batch b batchSize =
     (let n = min_int (Len b) batchSize
      in if n < 0 then Inl Panic else batch_loop (nat n) b [])"

text \<open>
  A sequence of \<open>Add\<close> calls on one buffer, and the same on a buffer fresh from
  \<open>NewBuffer\<close>.
\<close>

fun Add_calls :: "'m Buffer \<Rightarrow> 'm list list \<Rightarrow> fault + 'm Buffer" where
  "Add_calls b [] = Inr b"
| "Add_calls b (ms # mss) = thenR (Add b ms) (\<lambda>b'. Add_calls b' mss)"

definition Add_calls_from :: "int \<Rightarrow> 'm list list \<Rightarrow> fault + 'm Buffer" where
  "Add_calls_from C mss = thenR (NewBuffer C) (\<lambda>b. Add_calls b mss)"

text \<open>
  The number of elements that do not fit when \<open>ms\<close> is added to \<open>b\<close>.
\<close>

definition overflow :: "'m Buffer \<Rightarrow> 'm list \<Rightarrow> nat" where
  "overflow b ms = length (buf b) + length ms - cap b"

section \<open>The collaborators of the output stage\<close>

text \<open>
  Modelled from the spec: the metric type \<open>telegraf.Metric\<close> and its constructor
  \<open>telegraf.NewMetric\<close> are not part of the sources at hand. A metric is an immutable
  value with a name, a tag mapping, a field mapping and a timestamp; the constructor builds
  a metric from those four and cannot fail on the parts of an existing metric. The type of
  field values is left open, the timestamp is a number of time units.
\<close>

record 'v Metric =
  mName :: string
  mTags :: "string \<rightharpoonup> string"
  mFields :: "string \<rightharpoonup> 'v"
  mTime :: int

definition NewMetric ::
  "string \<Rightarrow> (string \<rightharpoonup> string) \<Rightarrow> (string \<rightharpoonup> 'v) \<Rightarrow> int \<Rightarrow> 'v Metric" where
  "NewMetric name tags flds t = \<lparr>mName = name, mTags = tags, mFields = flds, mTime = t\<rparr>"

text \<open>
  The filter of an output. \<open>ShouldMetricPass\<close> is a method whose body is not part of the
  sources at hand; it is a parameter here, a predicate on metrics.
\<close>

record 'v Filter =
  IsActive :: bool
  ShouldMetricPass :: "'v Metric \<Rightarrow> bool"
  TagExclude :: "string list"
  TagInclude :: "string list"

text \<open>
  Modelled from the spec: \<open>Filter.FilterTags\<close> is not part of the sources at hand. It
  rewrites a tag mapping by the inclusion and exclusion rules, which are sets of tag keys:
  when keys to include are configured only those are kept, and when keys to exclude are
  configured those are removed.
\<close>

definition FilterTags :: "'v Filter \<Rightarrow> (string \<rightharpoonup> string) \<Rightarrow> (string \<rightharpoonup> string)" where
  "FilterTags f tags =
     (let included = (if TagInclude f \<noteq> [] then tags |` set (TagInclude f) else tags)
      in if TagExclude f \<noteq> [] then included |` (- set (TagExclude f)) else included)"

record 'v OutputConfig =
  ConfigName :: string
  Filter :: "'v Filter"

text \<open>
  The sink behind the \<open>telegraf.Output\<close> interface: what its \<open>Write\<close> answers to a batch
  in a given internal state (\<open>None\<close> is the \<open>nil\<close> error), that state, and the batches
  it has been called with so far, oldest first.
\<close>

type_synonym error = string

record ('v, 's) Output =
  sink_write :: "'s \<Rightarrow> 'v Metric list \<Rightarrow> error option \<times> 's"
  sink_state :: 's
  sink_calls :: "'v Metric list list"

definition Output_Write ::
  "('v, 's) Output \<Rightarrow> 'v Metric list \<Rightarrow> error option \<times> ('v, 's) Output" where
  "Output_Write out ms =
     (case sink_write out (sink_state out) ms of
        (err, s') \<Rightarrow> (err, out\<lparr>sink_state := s', sink_calls := sink_calls out @ [ms]\<rparr>))"

section \<open>The output stage (type RunningOutput)\<close>

definition DEFAULT_METRIC_BATCH_SIZE :: int where
  "DEFAULT_METRIC_BATCH_SIZE = 1000"

definition DEFAULT_METRIC_BUFFER_LIMIT :: int where
  "DEFAULT_METRIC_BUFFER_LIMIT = 10000"

text \<open>
  The fields of the struct, with \<open>Config\<close> and \<open>Output\<close> taken to be present (not
  \<open>nil\<close>). \<open>logged\<close> is what \<open>log.Printf\<close> has written through this output: for each
  record the number of metrics and the output's name (the elapsed time is not modelled).
\<close>

record ('v, 's) RunningOutput =
  Name :: string
  Output :: "('v, 's) Output"
  Config :: "'v OutputConfig"
  Quiet :: bool
  MetricBufferLimit :: int
  MetricBatchSize :: int
  metrics :: "'v Metric Buffer"
  failMetrics :: "'v Metric Buffer"
  logged :: "(nat \<times> string) list"

definition NewRunningOutput ::
  "string \<Rightarrow> ('v, 's) Output \<Rightarrow> 'v OutputConfig \<Rightarrow> int \<Rightarrow> int
     \<Rightarrow> fault + ('v, 's) RunningOutput" where
  "NewRunningOutput name out conf batchSize bufferLimit =
     (let bufferLimit' = (if bufferLimit = 0 then DEFAULT_METRIC_BUFFER_LIMIT else bufferLimit);
          batchSize' = (if batchSize = 0 then DEFAULT_METRIC_BATCH_SIZE else batchSize)
      in thenR (NewBuffer batchSize') (\<lambda>m.
         thenR (NewBuffer bufferLimit') (\<lambda>f.
           Inr \<lparr>Name = name, Output = out, Config = conf, Quiet = False,
                MetricBufferLimit = bufferLimit', MetricBatchSize = batchSize',
                metrics = m, failMetrics = f, logged = []\<rparr>)))"

text \<open>The method \<open>write\<close> of the output stage: no call of the sink for an empty batch.\<close>

definition write_metrics ::
  "('v, 's) RunningOutput \<Rightarrow> 'v Metric list \<Rightarrow> error option \<times> ('v, 's) RunningOutput" where
  "write_metrics ro ms =
     (if length ms = 0 then (None, ro)
      else case Output_Write (Output ro) ms of
        (err, out') \<Rightarrow>
          (let ro1 = ro\<lparr>Output := out'\<rparr>
           in if err = None
              then (if \<not> Quiet ro1
                    then (err, ro1\<lparr>logged := logged ro1 @ [(length ms, Name ro1)]\<rparr>)
                    else (err, ro1))
              else (err, ro1)))"

text \<open>
  What \<open>AddMetric\<close> and \<open>Write\<close> do with a batch they have extracted: it is written, and
  on an error it is added to the fail buffer. The error of the write is returned with the
  state.
\<close>

definition write_or_requeue ::
  "('v, 's) RunningOutput \<Rightarrow> 'v Metric list
     \<Rightarrow> fault + (error option \<times> ('v, 's) RunningOutput)" where
  "write_or_requeue ro batch =
     (case write_metrics ro batch of
        (err, ro1) \<Rightarrow>
          if err \<noteq> None
          then thenR (Add (failMetrics ro1) batch) (\<lambda>fb. Inr (err, ro1\<lparr>failMetrics := fb\<rparr>))
          else Inr (err, ro1))"

text \<open>
  The metric that \<open>AddMetric\<close> goes on with: a new one with the tags filtered when tag
  rules are configured, the given one otherwise.
\<close>

definition filter_metric_tags :: "'v Filter \<Rightarrow> 'v Metric \<Rightarrow> 'v Metric" where
  "filter_metric_tags f metric =
     (if length (TagExclude f) \<noteq> 0 \<or> length (TagInclude f) \<noteq> 0
      then NewMetric (mName metric) (FilterTags f (mTags metric)) (mFields metric) (mTime metric)
      else metric)"

definition AddMetric ::
  "('v, 's) RunningOutput \<Rightarrow> 'v Metric \<Rightarrow> fault + ('v, 's) RunningOutput" where
  "AddMetric ro metric =
     (let f = Filter (Config ro)
      in if IsActive f \<and> \<not> ShouldMetricPass f metric then Inr ro
         else
           let metric' = filter_metric_tags f metric
           in thenR (Add (metrics ro) [metric']) (\<lambda>mb.
                let ro1 = ro\<lparr>metrics := mb\<rparr>
                in if Len (metrics ro1) = MetricBatchSize ro1
                   then thenR (Batch (metrics ro1) (MetricBatchSize ro1)) (\<lambda>(batch, mb').
                          thenR (write_or_requeue (ro1\<lparr>metrics := mb'\<rparr>) batch)
                            (\<lambda>(err, ro2). Inr ro2))
                   else Inr ro1))"

text \<open>
  Go's integer division truncates towards zero, the remainder has the sign of the dividend,
  and both panic on a zero divisor.
\<close>

definition go_div :: "int \<Rightarrow> int \<Rightarrow> fault + int" where
  "go_div a b = (if b = 0 then Inl Panic else Inr (sgn a * sgn b * (\<bar>a\<bar> div \<bar>b\<bar>)))"

definition go_mod :: "int \<Rightarrow> int \<Rightarrow> fault + int" where
  "go_mod a b = (if b = 0 then Inl Panic else Inr (sgn a * (\<bar>a\<bar> mod \<bar>b\<bar>)))"

text \<open>
  One batch of the fail buffer: extracted with the given size, written, added back on an
  error (the body of the loop of \<open>Write\<close> after the batch size is chosen).
\<close>

definition retry_batch ::
  "('v, 's) RunningOutput \<Rightarrow> int \<Rightarrow> fault + ('v, 's) RunningOutput" where
  "retry_batch ro batchSize =
     thenR (Batch (failMetrics ro) batchSize) (\<lambda>(batch, fb).
       thenR (write_or_requeue (ro\<lparr>failMetrics := fb\<rparr>) batch) (\<lambda>(err, ro1). Inr ro1))"

text \<open>
  The loop of \<open>Write\<close> over \<open>i\<close>; \<open>batchSize\<close> is the local variable, which the last pass
  overwrites with the remainder.
\<close>

function drain_loop ::
  "int \<Rightarrow> int \<Rightarrow> int \<Rightarrow> int \<Rightarrow> ('v, 's) RunningOutput \<Rightarrow> fault + ('v, 's) RunningOutput" where
  "drain_loop i nBatches bufLen batchSize ro =
     (if i < nBatches
      then thenR (if i = nBatches - 1 then go_mod bufLen (MetricBatchSize ro)
                  else Inr batchSize) (\<lambda>batchSize'.
           thenR (retry_batch ro batchSize') (\<lambda>ro'.
             drain_loop (i + 1) nBatches bufLen batchSize' ro'))
      else Inr ro)"
  by pat_completeness auto
termination
  by (relation "measure (\<lambda>(i, nBatches, bufLen, batchSize, ro). nat (nBatches - i))") auto

declare drain_loop.simps [simp del]

definition drain :: "('v, 's) RunningOutput \<Rightarrow> fault + ('v, 's) RunningOutput" where
  "drain ro =
     (if \<not> IsEmpty (failMetrics ro)
      then let bufLen = Len (failMetrics ro)
           in thenR (go_div bufLen (MetricBatchSize ro)) (\<lambda>q.
                drain_loop 0 (q + 1) bufLen (MetricBatchSize ro) ro)
      else Inr ro)"

definition Write ::
  "('v, 's) RunningOutput \<Rightarrow> fault + (error option \<times> ('v, 's) RunningOutput)" where
  "Write ro =
     thenR (drain ro) (\<lambda>ro1.
       thenR (Batch (metrics ro1) (MetricBatchSize ro1)) (\<lambda>(batch, mb).
         write_or_requeue (ro1\<lparr>metrics := mb\<rparr>) batch))"

text \<open>
  The draining of the fail buffer in the words of the specification: the sizes of the
  batches to extract, \<open>floor (failLen / batchSize)\<close> times the batch size and then the
  remainder, and the extraction and resending of one batch for each size in turn.
\<close>

definition drain_sizes :: "int \<Rightarrow> int \<Rightarrow> int list" where
  "drain_sizes failLen batchSize =
     replicate (nat (failLen div batchSize)) batchSize @ [failLen mod batchSize]"

fun retry_batches ::
  "('v, 's) RunningOutput \<Rightarrow> int list \<Rightarrow> fault + ('v, 's) RunningOutput" where
  "retry_batches ro [] = Inr ro"
| "retry_batches ro (k # ks) = thenR (retry_batch ro k) (\<lambda>ro'. retry_batches ro' ks)"

text \<open>
  What the draining comes to, in the words of the specification. The batches are the fail
  buffer cut at the sizes; each non-empty batch is sent to the sink in turn, in the state
  the sink is in by then, and the batches on which the sink answers an error are pushed
  back, in that order.
\<close>

fun chop :: "int list \<Rightarrow> 'a list \<Rightarrow> 'a list list" where
  "chop [] xs = []"
| "chop (k # ks) xs = take (nat k) xs # chop ks (drop (nat k) xs)"

fun failed_batches ::
  "('s \<Rightarrow> 'm list \<Rightarrow> error option \<times> 's) \<Rightarrow> 's \<Rightarrow> 'm list list \<Rightarrow> 'm list list" where
  "failed_batches w s [] = []"
| "failed_batches w s (b # bs) =
     (if b = [] then failed_batches w s bs
      else case w s b of
        (err, s') \<Rightarrow> (if err \<noteq> None then [b] else []) @ failed_batches w s' bs)"

definition drain_batches :: "('v, 's) RunningOutput \<Rightarrow> 'v Metric list list" where
  "drain_batches ro =
     chop (drain_sizes (Len (failMetrics ro)) (MetricBatchSize ro)) (buf (failMetrics ro))"

definition drain_requeued :: "('v, 's) RunningOutput \<Rightarrow> 'v Metric list" where
  "drain_requeued ro =
     concat (failed_batches (sink_write (Output ro)) (sink_state (Output ro)) (drain_batches ro))"

text \<open>A sequence of \<open>AddMetric\<close> calls on one output.\<close>

fun AddMetric_calls ::
  "('v, 's) RunningOutput \<Rightarrow> 'v Metric list \<Rightarrow> fault + ('v, 's) RunningOutput" where
  "AddMetric_calls ro [] = Inr ro"
| "AddMetric_calls ro (m # ms) = thenR (AddMetric ro m) (\<lambda>ro'. AddMetric_calls ro' ms)"

section \<open>Concrete sinks, configurations, metrics and states\<close>

text \<open>
  A sink that fails on every batch, a configuration without filter, one that excludes the
  tag \<open>host\<close> and one whose active filter rejects the metrics named \<open>cpu\<close>; metrics; the
  state of an output with batch size \<open>1\<close> and buffer limit \<open>3\<close> on the failing sink, given
  what its fail buffer holds, and the states of one with batch size \<open>2\<close> and buffer limit
  \<open>4\<close>: on the failing sink with given buffers, and fresh with a given configuration.
\<close>

definition sink_down :: "(int, unit) Output" where
  "sink_down = \<lparr>sink_write = (\<lambda>s ms. (Some ''down'', s)), sink_state = (), sink_calls = []\<rparr>"

definition pass_all :: "int OutputConfig" where
  "pass_all = \<lparr>ConfigName = ''out'',
      Filter = \<lparr>IsActive = False, ShouldMetricPass = (\<lambda>m. True),
                TagExclude = [], TagInclude = []\<rparr>\<rparr>"

definition sample :: "string \<Rightarrow> int \<Rightarrow> int Metric" where
  "sample n t = \<lparr>mName = n, mTags = Map.empty, mFields = [''value'' \<mapsto> t], mTime = t\<rparr>"

definition overload_state ::
  "int Metric list \<Rightarrow> 64 word \<Rightarrow> int Metric list list \<Rightarrow> (int, unit) RunningOutput" where
  "overload_state failed dropped calls =
     \<lparr>Name = ''o'', Output = sink_down\<lparr>sink_calls := calls\<rparr>, Config = pass_all,
      Quiet = False, MetricBufferLimit = 3, MetricBatchSize = 1,
      metrics = \<lparr>cap = 1, buf = [], drops = 0\<rparr>,
      failMetrics = \<lparr>cap = 3, buf = failed, drops = dropped\<rparr>, logged = []\<rparr>"

definition down_state ::
  "int Metric list \<Rightarrow> int Metric list \<Rightarrow> int Metric list list \<Rightarrow> (int, unit) RunningOutput" where
  "down_state held failed calls =
     \<lparr>Name = ''o'', Output = sink_down\<lparr>sink_calls := calls\<rparr>, Config = pass_all,
      Quiet = False, MetricBufferLimit = 4, MetricBatchSize = 2,
      metrics = \<lparr>cap = 2, buf = held, drops = 0\<rparr>,
      failMetrics = \<lparr>cap = 4, buf = failed, drops = 0\<rparr>, logged = []\<rparr>"

text \<open>
  A sink that fails on the first batch it is given and on no other, and the state of a
  quiet output on it with batch size \<open>2\<close> and buffer limit \<open>4\<close>, given what its fail
  buffer holds.
\<close>

definition sink_once_down :: "(int, nat) Output" where
  "sink_once_down =
     \<lparr>sink_write = (\<lambda>n ms. (if n = 0 then Some ''down'' else None, Suc n)),
      sink_state = 0, sink_calls = []\<rparr>"

definition recovering_state :: "int Metric list \<Rightarrow> (int, nat) RunningOutput" where
  "recovering_state failed =
     \<lparr>Name = ''o'', Output = sink_once_down, Config = pass_all,
      Quiet = True, MetricBufferLimit = 4, MetricBatchSize = 2,
      metrics = \<lparr>cap = 2, buf = [], drops = 0\<rparr>,
      failMetrics = \<lparr>cap = 4, buf = failed, drops = 0\<rparr>, logged = []\<rparr>"

definition tag_config :: "int OutputConfig" where
  "tag_config = \<lparr>ConfigName = ''out'',
      Filter = \<lparr>IsActive = False, ShouldMetricPass = (\<lambda>m. True),
                TagExclude = [''host''], TagInclude = []\<rparr>\<rparr>"

definition tagged_metric :: "int Metric" where
  "tagged_metric = \<lparr>mName = ''cpu'', mTags = [''host'' \<mapsto> ''a'', ''region'' \<mapsto> ''b''],
      mFields = [''value'' \<mapsto> 7], mTime = 42\<rparr>"

definition fresh_state :: "int OutputConfig \<Rightarrow> (int, unit) RunningOutput" where
  "fresh_state conf = \<lparr>Name = ''o'', Output = sink_down, Config = conf,
      Quiet = False, MetricBufferLimit = 4, MetricBatchSize = 2,
      metrics = \<lparr>cap = 2, buf = [], drops = 0\<rparr>,
      failMetrics = \<lparr>cap = 4, buf = [], drops = 0\<rparr>, logged = []\<rparr>"

definition reject_cpu :: "int OutputConfig" where
  "reject_cpu = \<lparr>ConfigName = ''out'',
      Filter = \<lparr>IsActive = True, ShouldMetricPass = (\<lambda>m. mName m \<noteq> ''cpu''),
                TagExclude = [], TagInclude = []\<rparr>\<rparr>"

section \<open>States of the output stage that the constructor and the operations produce\<close>

text \<open>
  A buffer that holds no more than its capacity, which is positive; and an output stage
  whose batch size is positive, whose primary buffer has the batch size as its capacity and
  holds less than a batch, and whose fail buffer is such a buffer.
\<close>

definition buffer_ok :: "'m Buffer \<Rightarrow> bool" where
  "buffer_ok b = (0 < cap b \<and> length (buf b) \<le> cap b)"

definition ro_ok :: "('v, 's) RunningOutput \<Rightarrow> bool" where
  "ro_ok ro =
     (0 < MetricBatchSize ro
      \<and> cap (metrics ro) = nat (MetricBatchSize ro)
      \<and> length (buf (metrics ro)) < cap (metrics ro)
      \<and> buffer_ok (failMetrics ro))"

section \<open>Properties of the ring buffer\<close>

lemma batch_loop_take:
  "k \<le> length (buf b) \<Longrightarrow>
   batch_loop k b out = Inr (out @ take k (buf b), b\<lparr>buf := drop k (buf b)\<rparr>)"
proof (induction k arbitrary: b out)
  case 0
  then show ?case by simp
next
  case (Suc k)
  then obtain x xs where xs: "buf b = x # xs"
    by (cases "buf b") auto
  with Suc.prems have "k \<le> length (buf (b\<lparr>buf := xs\<rparr>))" by simp
  from Suc.IH [OF this, of "out @ [x]"] xs show ?case
    by (simp add: chan_recv_def)
qed

lemma Batch_take:
  "0 \<le> k \<Longrightarrow>
   Batch b k = Inr (take (nat k) (buf b), b\<lparr>buf := drop (nat k) (buf b)\<rparr>)"
proof (cases "k < int (length (buf b))")
  case True
  assume "0 \<le> k"
  with True show ?thesis
    by (simp add: Batch_def Len_def min_int_def batch_loop_take)
next
  case False
  assume "0 \<le> k"
  with False show ?thesis
    by (simp add: Batch_def Len_def min_int_def batch_loop_take)
qed

lemma add_one_ok:
  "0 < cap b \<Longrightarrow> length (buf b) \<le> cap b \<Longrightarrow>
   add_one b m = Inr (if length (buf b) < cap b then b\<lparr>buf := buf b @ [m]\<rparr>
                      else b\<lparr>buf := tl (buf b) @ [m], drops := drops b + 1\<rparr>)"
  by (cases "buf b") (auto simp: add_one_def chan_recv_def chan_send_def)

lemma Add_ok:
  "0 < cap b \<Longrightarrow> length (buf b) \<le> cap b \<Longrightarrow>
   Add b ms = Inr (b\<lparr>buf := drop (overflow b ms) (buf b @ ms),
                     drops := drops b + of_nat (overflow b ms)\<rparr>)"
proof (induction ms arbitrary: b)
  case Nil
  then show ?case by (simp add: overflow_def)
next
  case (Cons m ms)
  show ?case
  proof (cases "length (buf b) < cap b")
    case True
    let ?b = "b\<lparr>buf := buf b @ [m]\<rparr>"
    have 1: "add_one b m = Inr ?b" using Cons.prems True by (simp add: add_one_ok)
    have 2: "0 < cap ?b" "length (buf ?b) \<le> cap ?b" using Cons.prems True by simp_all
    have 3: "overflow ?b ms = overflow b (m # ms)" by (simp add: overflow_def)
    show ?thesis using Cons.IH [OF 2] by (simp add: 1 3)
  next
    case False
    let ?b = "b\<lparr>buf := tl (buf b) @ [m], drops := drops b + 1\<rparr>"
    from False Cons.prems have full: "length (buf b) = cap b" by simp
    then obtain x xs where xs: "buf b = x # xs" using Cons.prems by (cases "buf b") auto
    have 1: "add_one b m = Inr ?b" using Cons.prems False by (simp add: add_one_ok)
    have 2: "0 < cap ?b" "length (buf ?b) \<le> cap ?b" using Cons.prems full xs by simp_all
    have 3: "overflow b (m # ms) = Suc (overflow ?b ms)" using full xs by (simp add: overflow_def)
    show ?thesis using Cons.IH [OF 2] xs by (simp add: 1 3)
  qed
qed



lemma Add_cap0:
  "cap b = 0 \<Longrightarrow> buf b = [] \<Longrightarrow> Add b ms = Inr b' \<Longrightarrow> ms = [] \<and> b' = b"
  by (cases ms) (auto simp: add_one_def chan_recv_def)

lemma Add_result:
  assumes "length (buf b) \<le> cap b" and "Add b ms = Inr b'"
  shows "b' = b\<lparr>buf := drop (overflow b ms) (buf b @ ms), drops := drops b + of_nat (overflow b ms)\<rparr>"
proof (cases "0 < cap b")
  case True
  with assms show ?thesis by (simp add: Add_ok)
next
  case False
  with assms have c: "cap b = 0" "buf b = []" by simp_all
  with assms(2) have "ms = []" "b' = b" using Add_cap0 by blast+
  with c show ?thesis by (simp add: overflow_def)
qed

lemma Add_calls_result:
  "length (buf b) \<le> cap b \<Longrightarrow> Add_calls b mss = Inr b' \<Longrightarrow>
   b' = b\<lparr>buf := drop (overflow b (concat mss)) (buf b @ concat mss),
          drops := drops b + of_nat (overflow b (concat mss))\<rparr>"
proof (induction mss arbitrary: b)
  case Nil
  then show ?case by (simp add: overflow_def)
next
  case (Cons ms mss)
  from Cons.prems(2) obtain b1 where b1: "Add b ms = Inr b1" and r: "Add_calls b1 mss = Inr b'"
    by (cases "Add b ms") auto
  note e = Add_result [OF Cons.prems(1) b1]
  have le: "length (buf b1) \<le> cap b1" using Cons.prems(1) by (simp add: e overflow_def)
  have c: "cap b1 = cap b" by (simp add: e)
  have o: "overflow b1 (concat mss) + overflow b ms = overflow b (ms @ concat mss)"
    using Cons.prems(1) by (simp add: e overflow_def)
  have d: "drop (overflow b1 (concat mss)) (buf b1 @ concat mss) = drop (overflow b (ms @ concat mss)) (buf b @ ms @ concat mss)"
  proof -
    have "overflow b ms - length (buf b @ ms) = 0" by (simp add: overflow_def)
    then have "drop (overflow b ms) ((buf b @ ms) @ concat mss) = buf b1 @ concat mss"
      unfolding drop_append [of "overflow b ms" "buf b @ ms"] by (simp add: e)
    then have "drop (overflow b1 (concat mss)) (buf b1 @ concat mss)
       = drop (overflow b1 (concat mss)) (drop (overflow b ms) ((buf b @ ms) @ concat mss))"
      by simp
    also have "\<dots> = drop (overflow b1 (concat mss) + overflow b ms) ((buf b @ ms) @ concat mss)"
      by (simp only: drop_drop)
    finally show ?thesis by (simp only: o append_assoc)
  qed
  have "b' = b1\<lparr>buf := drop (overflow b1 (concat mss)) (buf b1 @ concat mss),
          drops := drops b1 + of_nat (overflow b1 (concat mss))\<rparr>"
    using Cons.IH [OF le r] .
  then show ?case
    unfolding d by (simp add: e o [symmetric] add.commute add.left_commute)
qed

lemma Add_calls_ok:
  "0 < cap b \<Longrightarrow> length (buf b) \<le> cap b \<Longrightarrow> \<exists>b'. Add_calls b mss = Inr b'"
proof (induction mss arbitrary: b)
  case Nil
  then show ?case by simp
next
  case (Cons ms mss)
  let ?b = "b\<lparr>buf := drop (overflow b ms) (buf b @ ms), drops := drops b + of_nat (overflow b ms)\<rparr>"
  have "0 < cap ?b" "length (buf ?b) \<le> cap ?b" using Cons.prems by (simp_all add: overflow_def)
  from Cons.IH [OF this] show ?case using Cons.prems by (simp add: Add_ok)
qed

text \<open>
  C1. A buffer made with capacity \<open>C\<close> and a sequence of \<open>Add\<close> calls on it: when the
  capacity is positive every call returns, and whenever the calls return the length is at
  most \<open>C\<close>, the contents are the last elements inserted, in insertion order (what did
  not fit was evicted from the head and counted), and \<open>Batch\<close> with a non-negative size
  returns them from the head in that order.
\<close>

theorem Buffer_bounded_fifo:
  "(0 < C \<longrightarrow> (\<exists>b. Add_calls_from C mss = Inr b))
   \<and> (\<forall>b. Add_calls_from C mss = Inr b \<longrightarrow>
        cap b = nat C
        \<and> length (buf b) \<le> nat C
        \<and> buf b = drop (length (concat mss) - nat C) (concat mss)
        \<and> drops b = of_nat (length (concat mss) - nat C)
        \<and> (\<forall>k. 0 \<le> k \<longrightarrow>
              Batch b k = Inr (take (nat k) (buf b), b\<lparr>buf := drop (nat k) (buf b)\<rparr>)))"
proof (intro conjI allI impI)
  assume "0 < C"
  then show "\<exists>b. Add_calls_from C mss = Inr b"
    using Add_calls_ok [of "\<lparr>cap = nat C, buf = [], drops = 0\<rparr>" mss]
    by (simp add: Add_calls_from_def NewBuffer_def)
next
  fix b
  assume r: "Add_calls_from C mss = Inr b"
  let ?b0 = "\<lparr>cap = nat C, buf = [] :: 'a list, drops = 0\<rparr>"
  from r have C: "0 \<le> C" and r0: "Add_calls ?b0 mss = Inr b"
    by (auto simp: Add_calls_from_def NewBuffer_def split: if_splits)
  have e: "b = ?b0\<lparr>buf := drop (overflow ?b0 (concat mss)) (buf ?b0 @ concat mss),
          drops := drops ?b0 + of_nat (overflow ?b0 (concat mss))\<rparr>"
    by (rule Add_calls_result [OF _ r0]) simp
  show "cap b = nat C" by (simp add: e)
  show "length (buf b) \<le> nat C" by (simp add: e overflow_def)
  show "buf b = drop (length (concat mss) - nat C) (concat mss)" by (simp add: e overflow_def)
  show "drops b = of_nat (length (concat mss) - nat C)" by (simp add: e overflow_def)
  fix k :: int
  assume "0 \<le> k"
  then show "Batch b k = Inr (take (nat k) (buf b), b\<lparr>buf := drop (nat k) (buf b)\<rparr>)"
    by (rule Batch_take)
qed

theorem Buffer_bounded_fifo_witness:
  "\<exists>b. Add_calls_from 2 [[1::nat], [2, 3]] = Inr b
     \<and> length (buf b) \<le> 2 \<and> buf b = [2, 3] \<and> drops b = 1
     \<and> Batch b 1 = Inr ([2], b\<lparr>buf := [3]\<rparr>)"
proof -
  note t = Buffer_bounded_fifo [of 2 "[[1::nat], [2, 3]]"]
  from t obtain b where b: "Add_calls_from 2 [[1::nat], [2, 3]] = Inr b"
    by auto
  from t b have p: "length (buf b) \<le> nat 2" "buf b = drop (length (concat [[1::nat], [2, 3]]) - nat 2) (concat [[1::nat], [2, 3]])"
    "drops b = of_nat (length (concat [[1::nat], [2, 3]]) - nat 2)"
    "Batch b 1 = Inr (take (nat 1) (buf b), b\<lparr>buf := drop (nat 1) (buf b)\<rparr>)"
    by simp_all
  from p(2) have q: "buf b = [2, 3]" by simp
  from p q b show ?thesis by simp
qed

text \<open>
  C2, at capacity \<open>0\<close>. The buffer of capacity \<open>0\<close> is full when it is empty; an \<open>Add\<close>
  of one element takes the \<open>default\<close> branch and then waits for ever on the receive, so
  nothing is evicted and the call does not return.
\<close>

theorem Add_blocks_at_capacity_zero:
  "NewBuffer 0 = Inr \<lparr>cap = 0, buf = [] :: nat list, drops = 0\<rparr>
   \<and> length (buf \<lparr>cap = 0, buf = [] :: nat list, drops = 0\<rparr>)
       = cap \<lparr>cap = 0, buf = [] :: nat list, drops = 0\<rparr>
   \<and> Add \<lparr>cap = 0, buf = [], drops = 0\<rparr> [1 :: nat] = Inl BlocksForever
   \<and> thenR (Add_calls_from 0 [[1 :: nat]]) (\<lambda>b. Batch b 0) = Inl BlocksForever"
  by (simp add: NewBuffer_def add_one_def chan_recv_def Add_calls_from_def)

text \<open>
  C2, amended to a positive capacity. On a full buffer of positive capacity an \<open>Add\<close> of
  one element returns, with the head evicted, the new element at the tail, the drop
  counter one higher and the length as before. And \<open>C + 1\<close> elements inserted into a
  fresh buffer of positive capacity \<open>C\<close>, then \<open>Batch(C)\<close>: the result is the last \<open>C\<close>
  of them in insertion order, with the drop counter at \<open>1\<close>.
\<close>

theorem Add_full_evicts_one:
  "(0 < cap b \<and> length (buf b) = cap b \<longrightarrow>
      Add b [m] = Inr (b\<lparr>buf := tl (buf b) @ [m], drops := drops b + 1\<rparr>)
      \<and> buf b = hd (buf b) # tl (buf b)
      \<and> length (tl (buf b) @ [m]) = length (buf b))
   \<and> (0 < C \<and> length (concat mss) = nat C + 1 \<longrightarrow>
      thenR (Add_calls_from C mss) (\<lambda>b'. Batch b' C)
        = Inr (tl (concat mss), \<lparr>cap = nat C, buf = [], drops = 1\<rparr>))"
proof (intro conjI impI)
  assume a: "0 < cap b \<and> length (buf b) = cap b"
  then show "buf b = hd (buf b) # tl (buf b)" by (cases "buf b") auto
  then show "length (tl (buf b) @ [m]) = length (buf b)"
    by (metis length_Cons length_append_singleton)
  from a show "Add b [m] = Inr (b\<lparr>buf := tl (buf b) @ [m], drops := drops b + 1\<rparr>)"
    by (simp add: add_one_ok)
next
  assume a: "0 < C \<and> length (concat mss) = nat C + 1"
  let ?b0 = "\<lparr>cap = nat C, buf = [] :: 'b list, drops = 0\<rparr>"
  from a obtain b' where r0: "Add_calls ?b0 mss = Inr b'"
    using Add_calls_ok [of ?b0 mss] by auto
  have e: "b' = ?b0\<lparr>buf := drop (overflow ?b0 (concat mss)) (buf ?b0 @ concat mss),
          drops := drops ?b0 + of_nat (overflow ?b0 (concat mss))\<rparr>"
    by (rule Add_calls_result [OF _ r0]) simp
  have o: "overflow ?b0 (concat mss) = 1" using a by (simp add: overflow_def)
  have e': "b' = \<lparr>cap = nat C, buf = tl (concat mss), drops = 1\<rparr>"
    unfolding e o by (simp add: drop_Suc)
  have l: "length (tl (concat mss)) = nat C" using a by simp
  from a have "Batch b' C = Inr (tl (concat mss), \<lparr>cap = nat C, buf = [], drops = 1\<rparr>)"
    by (simp add: Batch_take e' l)
  with a r0 show "thenR (Add_calls_from C mss) (\<lambda>b'. Batch b' C)
        = Inr (tl (concat mss), \<lparr>cap = nat C, buf = [], drops = 1\<rparr>)"
    by (simp add: Add_calls_from_def NewBuffer_def)
qed

theorem Add_full_evicts_one_witness:
  "Add \<lparr>cap = 2, buf = [10, 20 :: nat], drops = 5\<rparr> [30]
     = Inr \<lparr>cap = 2, buf = [20, 30], drops = 6\<rparr>
   \<and> thenR (Add_calls_from 2 [[1 :: nat], [2, 3]]) (\<lambda>b'. Batch b' 2)
     = Inr ([2, 3], \<lparr>cap = 2, buf = [], drops = 1\<rparr>)"
  using Add_full_evicts_one [of "\<lparr>cap = 2, buf = [10, 20 :: nat], drops = 5\<rparr>" 30 2 "[[1 :: nat], [2, 3]]"]
  by simp

text \<open>
  C3. For a non-negative batch size \<open>k\<close>, \<open>Batch\<close> returns; what it returns are the first
  \<open>min (length, k)\<close> queued metrics, oldest first, and they are removed from the head of
  the buffer, whose other fields stay as they were. On an empty buffer the result is the
  empty sequence and the buffer (contents and drop counter) is unchanged.
\<close>

theorem Batch_spec:
  "0 \<le> k \<Longrightarrow>
   (let n = nat (min (Len b) k)
    in Batch b k = Inr (take n (buf b), b\<lparr>buf := drop n (buf b)\<rparr>)
       \<and> length (take n (buf b)) = n)
   \<and> (buf b = [] \<longrightarrow> Batch b k = Inr ([], b))"
proof (cases "int (length (buf b)) \<le> k")
  case True
  assume k: "0 \<le> k"
  from True have "length (buf b) \<le> nat k" by linarith
  with True k show ?thesis
    by (simp add: Batch_take Len_def min_def Let_def)
next
  case False
  assume k: "0 \<le> k"
  from False k have "nat k < length (buf b)" by linarith
  with False k show ?thesis
    by (auto simp: Batch_take Len_def min_def Let_def)
qed

theorem Batch_spec_witness:
  "(0::int) \<le> 2
   \<and> Batch \<lparr>cap = 4, buf = [10, 20, 30 :: nat], drops = 7\<rparr> 2
       = Inr ([10, 20], \<lparr>cap = 4, buf = [30], drops = 7\<rparr>)"
proof -
  have h: "(0::int) \<le> 2" by simp
  show ?thesis
    using Batch_spec [OF h, of "\<lparr>cap = 4, buf = [10, 20, 30 :: nat], drops = 7\<rparr>"]
    by (simp add: Len_def Let_def)
qed

section \<open>Properties of the output stage\<close>

lemma Add_buffer_ok:
  "buffer_ok b \<Longrightarrow>
   Add b ms = Inr (b\<lparr>buf := drop (overflow b ms) (buf b @ ms),
                     drops := drops b + of_nat (overflow b ms)\<rparr>)"
  by (simp add: buffer_ok_def Add_ok)

lemma buffer_ok_Add:
  "buffer_ok b \<Longrightarrow>
   buffer_ok (b\<lparr>buf := drop (overflow b ms) (buf b @ ms), drops := d\<rparr>)"
  by (simp add: buffer_ok_def overflow_def)

lemma write_metrics_Nil: "write_metrics ro [] = (None, ro)"
  by (simp add: write_metrics_def)

lemma write_metrics_eq:
  "ms \<noteq> [] \<Longrightarrow> sink_write (Output ro) (sink_state (Output ro)) ms = (err, s') \<Longrightarrow>
   write_metrics ro ms =
     (err, ro\<lparr>Output := (Output ro)\<lparr>sink_state := s', sink_calls := sink_calls (Output ro) @ [ms]\<rparr>,
              logged := (if err = None \<and> \<not> Quiet ro then logged ro @ [(length ms, Name ro)]
                         else logged ro)\<rparr>)"
  by (simp add: write_metrics_def Output_Write_def Let_def)

lemma write_metrics_frame:
  "write_metrics ro ms = (err, ro') \<Longrightarrow>
   ro' = ro\<lparr>Output := Output ro', logged := logged ro'\<rparr>"
  by (auto simp: write_metrics_def Output_Write_def Let_def split: if_splits prod.splits)

lemma write_metrics_keeps:
  assumes "write_metrics ro ms = (err, ro')"
  shows "metrics ro' = metrics ro" and "failMetrics ro' = failMetrics ro"
    and "MetricBatchSize ro' = MetricBatchSize ro" and "Config ro' = Config ro"
proof -
  note e = write_metrics_frame [OF assms]
  show "metrics ro' = metrics ro" by (subst e) simp
  show "failMetrics ro' = failMetrics ro" by (subst e) simp
  show "MetricBatchSize ro' = MetricBatchSize ro" by (subst e) simp
  show "Config ro' = Config ro" by (subst e) simp
qed

lemma write_or_requeue_eq:
  assumes "buffer_ok (failMetrics ro)" and "write_metrics ro batch = (err, ro1)"
  shows "write_or_requeue ro batch =
     Inr (err, if err \<noteq> None
               then ro1\<lparr>failMetrics := (failMetrics ro)
                      \<lparr>buf := drop (overflow (failMetrics ro) batch) (buf (failMetrics ro) @ batch),
                       drops := drops (failMetrics ro) + of_nat (overflow (failMetrics ro) batch)\<rparr>\<rparr>
               else ro1)"
  using assms write_metrics_keeps(2) [OF assms(2)]
  by (simp add: write_or_requeue_def Add_buffer_ok)

text \<open>What a returning \<open>write_or_requeue\<close> keeps and what it may change.\<close>

lemma write_or_requeue_keeps:
  assumes "buffer_ok (failMetrics ro)"
  shows "\<exists>err ro'. write_or_requeue ro batch = Inr (err, ro')
     \<and> metrics ro' = metrics ro \<and> MetricBatchSize ro' = MetricBatchSize ro
     \<and> Config ro' = Config ro
     \<and> cap (failMetrics ro') = cap (failMetrics ro)
     \<and> buffer_ok (failMetrics ro')
     \<and> err = fst (write_metrics ro batch)
     \<and> (buf (failMetrics ro') = buf (failMetrics ro)
          \<or> buf (failMetrics ro')
               = drop (overflow (failMetrics ro) batch) (buf (failMetrics ro) @ batch))"
proof -
  obtain err ro1 where w: "write_metrics ro batch = (err, ro1)"
    by (cases "write_metrics ro batch")
  note k = write_metrics_keeps [OF w]
  show ?thesis
    unfolding write_or_requeue_eq [OF assms w]
    using assms k w buffer_ok_Add [OF assms, where ms = batch]
    by (simp del: drop_append)
qed

lemma AddMetric_rejected:
  "IsActive (Filter (Config ro)) \<Longrightarrow> \<not> ShouldMetricPass (Filter (Config ro)) m \<Longrightarrow>
   AddMetric ro m = Inr ro"
  by (simp add: AddMetric_def)

lemma AddMetric_eq:
  assumes ok: "ro_ok ro"
    and acc: "\<not> (IsActive (Filter (Config ro)) \<and> \<not> ShouldMetricPass (Filter (Config ro)) m)"
  shows "AddMetric ro m =
     (let held = buf (metrics ro) @ [filter_metric_tags (Filter (Config ro)) m]
      in if int (length held) = MetricBatchSize ro
         then thenR (write_or_requeue (ro\<lparr>metrics := (metrics ro)\<lparr>buf := []\<rparr>\<rparr>) held)
                (\<lambda>(err, ro2). Inr ro2)
         else Inr (ro\<lparr>metrics := (metrics ro)\<lparr>buf := held\<rparr>\<rparr>))"
proof -
  let ?m = "filter_metric_tags (Filter (Config ro)) m"
  let ?held = "buf (metrics ro) @ [?m]"
  from ok have lt: "length (buf (metrics ro)) < cap (metrics ro)"
    and N: "0 < MetricBatchSize ro" and c: "cap (metrics ro) = nat (MetricBatchSize ro)"
    by (simp_all add: ro_ok_def)
  have a: "add_one (metrics ro) ?m = Inr ((metrics ro)\<lparr>buf := ?held\<rparr>)"
    using lt by (simp add: add_one_def)
  have b: "Batch ((metrics ro)\<lparr>buf := ?held\<rparr>) (MetricBatchSize ro)
             = Inr (take (nat (MetricBatchSize ro)) ?held,
                    (metrics ro)\<lparr>buf := drop (nat (MetricBatchSize ro)) ?held\<rparr>)"
    using N by (simp add: Batch_take)
  show ?thesis
  proof (cases "int (length ?held) = MetricBatchSize ro")
    case True
    then have l: "nat (MetricBatchSize ro) = length ?held" by linarith
    have "take (length ?held) ?held = ?held" "drop (length ?held) ?held = []" by simp_all
    with True acc a b l show ?thesis
      by (auto simp: AddMetric_def Let_def Len_def)
  next
    case False
    with acc a show ?thesis
      by (auto simp: AddMetric_def Let_def Len_def)
  qed
qed

lemma AddMetric_ok:
  assumes ok: "ro_ok ro"
  shows "\<exists>ro'. AddMetric ro m = Inr ro' \<and> ro_ok ro'
      \<and> drops (metrics ro') = drops (metrics ro)
      \<and> MetricBatchSize ro' = MetricBatchSize ro"
proof (cases "IsActive (Filter (Config ro)) \<and> \<not> ShouldMetricPass (Filter (Config ro)) m")
  case True
  with ok show ?thesis by (simp add: AddMetric_rejected)
next
  case False
  let ?held = "buf (metrics ro) @ [filter_metric_tags (Filter (Config ro)) m]"
  let ?ro = "ro\<lparr>metrics := (metrics ro)\<lparr>buf := []\<rparr>\<rparr>"
  note e = AddMetric_eq [OF ok False]
  show ?thesis
  proof (cases "int (length ?held) = MetricBatchSize ro")
    case True
    from ok have "buffer_ok (failMetrics ?ro)" by (simp add: ro_ok_def)
    from write_or_requeue_keeps [OF this, of ?held]
    obtain err ro' where w: "write_or_requeue ?ro ?held = Inr (err, ro')"
      and k: "metrics ro' = metrics ?ro" "MetricBatchSize ro' = MetricBatchSize ?ro"
        "buffer_ok (failMetrics ro')"
      by blast
    from ok k have "ro_ok ro'" by (simp add: ro_ok_def)
    with True w k show ?thesis by (simp add: e Let_def)
  next
    case False
    from ok False have "ro_ok (ro\<lparr>metrics := (metrics ro)\<lparr>buf := ?held\<rparr>\<rparr>)"
      by (auto simp: ro_ok_def)
    with False show ?thesis by (simp add: e Let_def)
  qed
qed

lemma NewRunningOutput_ok:
  assumes "0 \<le> batchSize" and "0 \<le> bufferLimit"
  shows "\<exists>ro. NewRunningOutput name out conf batchSize bufferLimit = Inr ro \<and> ro_ok ro
     \<and> buf (metrics ro) = [] \<and> drops (metrics ro) = 0
     \<and> buf (failMetrics ro) = [] \<and> drops (failMetrics ro) = 0
     \<and> MetricBatchSize ro = (if batchSize = 0 then 1000 else batchSize)
     \<and> cap (failMetrics ro) = nat (if bufferLimit = 0 then 10000 else bufferLimit)
     \<and> Output ro = out \<and> Config ro = conf"
  using assms
  by (simp add: NewRunningOutput_def NewBuffer_def Let_def ro_ok_def buffer_ok_def
      DEFAULT_METRIC_BATCH_SIZE_def DEFAULT_METRIC_BUFFER_LIMIT_def)

lemma AddMetric_calls_ok:
  "ro_ok ro \<Longrightarrow>
   \<exists>ro'. AddMetric_calls ro ms = Inr ro' \<and> ro_ok ro'
      \<and> drops (metrics ro') = drops (metrics ro)"
proof (induction ms arbitrary: ro)
  case Nil
  then show ?case by simp
next
  case (Cons m ms)
  from AddMetric_ok [OF Cons.prems, of m]
  obtain ro1 where 1: "AddMetric ro m = Inr ro1" "ro_ok ro1"
    "drops (metrics ro1) = drops (metrics ro)"
    by blast
  from Cons.IH [OF 1(2)] 1 show ?case by simp
qed

text \<open>
  C10. An output stage made by \<open>NewRunningOutput\<close> (with sizes that \<open>make\<close> accepts) and
  any sequence of \<open>AddMetric\<close> calls on it: the calls return, the drop counter of the
  primary buffer is \<open>0\<close>, and the primary buffer holds less than its capacity, which is
  the batch size; so the next insertion, whatever the metric, takes the send of the
  \<open>select\<close> and not the evicting branch.
\<close>

theorem primary_buffer_never_drops:
  "0 \<le> batchSize \<and> 0 \<le> bufferLimit \<longrightarrow>
   (\<exists>ro. thenR (NewRunningOutput name out conf batchSize bufferLimit)
            (\<lambda>ro0. AddMetric_calls ro0 ms) = Inr ro
      \<and> drops (metrics ro) = 0
      \<and> cap (metrics ro) = nat (MetricBatchSize ro)
      \<and> length (buf (metrics ro)) < cap (metrics ro)
      \<and> (\<forall>m. add_one (metrics ro) m = Inr ((metrics ro)\<lparr>buf := buf (metrics ro) @ [m]\<rparr>)))"
proof
  assume a: "0 \<le> batchSize \<and> 0 \<le> bufferLimit"
  then obtain ro0 where 0: "NewRunningOutput name out conf batchSize bufferLimit = Inr ro0"
    "ro_ok ro0" "drops (metrics ro0) = 0"
    using NewRunningOutput_ok [of batchSize bufferLimit name out conf] by blast
  from AddMetric_calls_ok [OF 0(2), of ms]
  obtain ro where 1: "AddMetric_calls ro0 ms = Inr ro" "ro_ok ro"
    "drops (metrics ro) = drops (metrics ro0)"
    by blast
  from 1(2) have "length (buf (metrics ro)) < cap (metrics ro)"
    "cap (metrics ro) = nat (MetricBatchSize ro)"
    by (simp_all add: ro_ok_def)
  with 0 1 show "\<exists>ro. thenR (NewRunningOutput name out conf batchSize bufferLimit)
            (\<lambda>ro0. AddMetric_calls ro0 ms) = Inr ro
      \<and> drops (metrics ro) = 0
      \<and> cap (metrics ro) = nat (MetricBatchSize ro)
      \<and> length (buf (metrics ro)) < cap (metrics ro)
      \<and> (\<forall>m. add_one (metrics ro) m = Inr ((metrics ro)\<lparr>buf := buf (metrics ro) @ [m]\<rparr>))"
    by (simp add: add_one_def)
qed

theorem primary_buffer_never_drops_witness:
  "(0::int) \<le> 2 \<and> (0::int) \<le> 4
   \<and> (\<exists>ro. thenR (NewRunningOutput ''o'' sink_down pass_all 2 4)
            (\<lambda>ro0. AddMetric_calls ro0 [sample ''a'' 1, sample ''b'' 2, sample ''c'' 3]) = Inr ro
      \<and> drops (metrics ro) = 0
      \<and> cap (metrics ro) = nat (MetricBatchSize ro)
      \<and> length (buf (metrics ro)) < cap (metrics ro)
      \<and> (\<forall>m. add_one (metrics ro) m = Inr ((metrics ro)\<lparr>buf := buf (metrics ro) @ [m]\<rparr>)))"
  using primary_buffer_never_drops
    [of 2 4 "''o''" sink_down pass_all "[sample ''a'' 1, sample ''b'' 2, sample ''c'' 3]"]
  by simp

text \<open>
  C7. Given an empty batch, \<open>write\<close> returns \<open>nil\<close> and the whole state, the sink and
  its record of calls included, is as before. Given a non-empty batch on which the sink
  answers an error, \<open>write\<close> returns that error; the sink has been called once with the
  batch, and nothing else of the state has changed, so the primary buffer and the fail
  buffer are as before.
\<close>

theorem write_empty_or_failed:
  "write_metrics ro [] = (None, ro)
   \<and> (ms \<noteq> [] \<and> sink_write (Output ro) (sink_state (Output ro)) ms = (Some e, s') \<longrightarrow>
        (\<exists>ro'. write_metrics ro ms = (Some e, ro')
           \<and> ro' = ro\<lparr>Output := (Output ro)\<lparr>sink_state := s',
                                            sink_calls := sink_calls (Output ro) @ [ms]\<rparr>\<rparr>
           \<and> metrics ro' = metrics ro
           \<and> failMetrics ro' = failMetrics ro))"
  by (simp add: write_metrics_Nil write_metrics_eq)

theorem write_empty_or_failed_witness:
  "write_metrics (fresh_state pass_all) [] = (None, fresh_state pass_all)
   \<and> (\<exists>ro'. write_metrics (fresh_state pass_all) [sample ''a'' 1] = (Some ''down'', ro')
           \<and> ro' = (fresh_state pass_all)\<lparr>Output := sink_down\<lparr>sink_calls := [[sample ''a'' 1]]\<rparr>\<rparr>
           \<and> metrics ro' = metrics (fresh_state pass_all)
           \<and> failMetrics ro' = failMetrics (fresh_state pass_all))"
  using write_empty_or_failed [of "fresh_state pass_all" "[sample ''a'' 1]" "''down''" "()"]
  by (simp add: fresh_state_def sink_down_def)

text \<open>
  C8. A metric that an active filter rejects: \<open>AddMetric\<close> returns and the state is the
  one before the call, in every field (both buffers with their contents and drop counters,
  the sink and its record of calls, the log).
\<close>

theorem AddMetric_rejected_no_effect:
  "IsActive (Filter (Config ro)) \<Longrightarrow> \<not> ShouldMetricPass (Filter (Config ro)) m \<Longrightarrow>
   AddMetric ro m = Inr ro"
  by (rule AddMetric_rejected)

theorem AddMetric_rejected_no_effect_witness:
  "IsActive (Filter (Config (fresh_state reject_cpu)))
   \<and> \<not> ShouldMetricPass (Filter (Config (fresh_state reject_cpu))) tagged_metric
   \<and> AddMetric (fresh_state reject_cpu) tagged_metric = Inr (fresh_state reject_cpu)"
  using AddMetric_rejected_no_effect [of "fresh_state reject_cpu" tagged_metric]
  by (simp add: fresh_state_def reject_cpu_def tagged_metric_def)

lemma AddMetric_flush_failed:
  assumes ok: "ro_ok ro"
    and acc: "\<not> (IsActive (Filter (Config ro)) \<and> \<not> ShouldMetricPass (Filter (Config ro)) m)"
    and held: "held = buf (metrics ro) @ [filter_metric_tags (Filter (Config ro)) m]"
    and full: "int (length held) = MetricBatchSize ro"
    and fails: "sink_write (Output ro) (sink_state (Output ro)) held = (Some e, s')"
  shows "AddMetric ro m =
     Inr (ro\<lparr>metrics := (metrics ro)\<lparr>buf := []\<rparr>,
             Output := (Output ro)\<lparr>sink_state := s', sink_calls := sink_calls (Output ro) @ [held]\<rparr>,
             failMetrics := (failMetrics ro)
               \<lparr>buf := drop (overflow (failMetrics ro) held) (buf (failMetrics ro) @ held),
                drops := drops (failMetrics ro) + of_nat (overflow (failMetrics ro) held)\<rparr>\<rparr>)"
proof -
  let ?ro = "ro\<lparr>metrics := (metrics ro)\<lparr>buf := []\<rparr>\<rparr>"
  have ne: "held \<noteq> []" by (simp add: held)
  have b: "buffer_ok (failMetrics ?ro)" using ok by (simp add: ro_ok_def)
  have w: "write_metrics ?ro held =
     (Some e, ?ro\<lparr>Output := (Output ?ro)\<lparr>sink_state := s', sink_calls := sink_calls (Output ?ro) @ [held]\<rparr>,
              logged := (if Some e = None \<and> \<not> Quiet ?ro then logged ?ro @ [(length held, Name ?ro)]
                         else logged ?ro)\<rparr>)"
    by (rule write_metrics_eq [OF ne]) (simp add: fails)
  show ?thesis
    unfolding AddMetric_eq [OF ok acc] held [symmetric] Let_def
    using full by (simp add: write_or_requeue_eq [OF b w] del: drop_append)
qed


lemma overload_step:
  assumes "length fs \<le> 3"
  shows "AddMetric (overload_state fs d calls) m =
     Inr (overload_state (drop (length fs + 1 - 3) (fs @ [m]))
            (d + of_nat (length fs + 1 - 3)) (calls @ [[m]]))"
proof -
  let ?ro = "overload_state fs d calls"
  have ok: "ro_ok ?ro"
    using assms by (simp add: overload_state_def ro_ok_def buffer_ok_def)
  have acc: "\<not> (IsActive (Filter (Config ?ro)) \<and> \<not> ShouldMetricPass (Filter (Config ?ro)) m)"
    by (simp add: overload_state_def pass_all_def)
  have held: "[m] = buf (metrics ?ro) @ [filter_metric_tags (Filter (Config ?ro)) m]"
    by (simp add: overload_state_def pass_all_def filter_metric_tags_def)
  have full: "int (length [m]) = MetricBatchSize ?ro"
    by (simp add: overload_state_def)
  have fails: "sink_write (Output ?ro) (sink_state (Output ?ro)) [m] = (Some ''down'', ())"
    by (simp add: overload_state_def sink_down_def)
  show ?thesis
    unfolding AddMetric_flush_failed [OF ok acc held full fails]
    by (simp add: overload_state_def overflow_def sink_down_def del: drop_append)
qed

text \<open>
  C6, as stated. With batch size \<open>1\<close> and buffer limit \<open>3\<close> against a sink that always
  fails, three metrics fill the fail buffer; the fourth failed batch evicts one metric, the
  size of the batch, and not \<open>3 - 1 = 2\<close>: two of the three old metrics are still there and
  the drop counter is \<open>1\<close>.
\<close>

theorem fail_buffer_overflow_not_limit_minus_batch:
  "thenR (NewRunningOutput ''o'' sink_down pass_all 1 3)
     (\<lambda>ro. AddMetric_calls ro [sample ''a'' 1, sample ''b'' 2, sample ''c'' 3])
     = Inr (overload_state [sample ''a'' 1, sample ''b'' 2, sample ''c'' 3] 0
             [[sample ''a'' 1], [sample ''b'' 2], [sample ''c'' 3]])
   \<and> AddMetric (overload_state [sample ''a'' 1, sample ''b'' 2, sample ''c'' 3] 0
             [[sample ''a'' 1], [sample ''b'' 2], [sample ''c'' 3]]) (sample ''d'' 4)
     = Inr (overload_state [sample ''b'' 2, sample ''c'' 3, sample ''d'' 4] 1
             [[sample ''a'' 1], [sample ''b'' 2], [sample ''c'' 3], [sample ''d'' 4]])
   \<and> [sample ''b'' 2, sample ''c'' 3, sample ''d'' 4]
       \<noteq> drop (3 - 1) [sample ''a'' 1, sample ''b'' 2, sample ''c'' 3] @ [sample ''d'' 4]
   \<and> (1 :: 64 word) \<noteq> 0 + of_nat (3 - 1)"
proof -
  have n: "NewRunningOutput ''o'' sink_down pass_all 1 3 = Inr (overload_state [] 0 [])"
    by (simp add: NewRunningOutput_def NewBuffer_def overload_state_def sink_down_def)
  show ?thesis
    by (simp add: n overload_step)
qed

text \<open>
  C6, amended. In a state as \<open>ro_ok\<close> describes, the fail buffer is full, the batch size
  is no more than its capacity, and the metric added (one that the filter lets pass)
  completes a batch on which the sink fails: \<open>AddMetric\<close> returns, and the
  fail buffer has lost as many of its oldest metrics as the batch holds, which is the
  batch size; the rest is followed by the batch, the drop counter has grown by the batch
  size, and the length is the capacity as before.
\<close>

theorem fail_buffer_overflow_evicts_batch:
  assumes "ro_ok ro"
    and "\<not> (IsActive (Filter (Config ro)) \<and> \<not> ShouldMetricPass (Filter (Config ro)) m)"
    and "held = buf (metrics ro) @ [filter_metric_tags (Filter (Config ro)) m]"
    and "int (length held) = MetricBatchSize ro"
    and "sink_write (Output ro) (sink_state (Output ro)) held = (Some e, s')"
    and "length (buf (failMetrics ro)) = cap (failMetrics ro)"
    and "MetricBatchSize ro \<le> int (cap (failMetrics ro))"
  shows "\<exists>ro'. AddMetric ro m = Inr ro'
     \<and> buf (failMetrics ro') = drop (nat (MetricBatchSize ro)) (buf (failMetrics ro)) @ held
     \<and> drops (failMetrics ro') = drops (failMetrics ro) + of_nat (nat (MetricBatchSize ro))
     \<and> length (buf (failMetrics ro')) = cap (failMetrics ro)
     \<and> cap (failMetrics ro') = cap (failMetrics ro)"
proof -
  from assms(4) have n: "nat (MetricBatchSize ro) = length held" by linarith
  from assms(6) have o: "overflow (failMetrics ro) held = length held"
    by (simp add: overflow_def)
  from assms(7) n have le: "length held \<le> cap (failMetrics ro)" by linarith
  show ?thesis
    unfolding AddMetric_flush_failed [OF assms(1-5)] o n
    using le assms(6) by simp
qed

theorem fail_buffer_overflow_evicts_batch_witness:
  "\<exists>ro'. AddMetric (overload_state [sample ''a'' 1, sample ''b'' 2, sample ''c'' 3] 0 [])
           (sample ''d'' 4) = Inr ro'
     \<and> buf (failMetrics ro') = [sample ''b'' 2, sample ''c'' 3, sample ''d'' 4]
     \<and> drops (failMetrics ro') = 1
     \<and> length (buf (failMetrics ro')) = 3
     \<and> cap (failMetrics ro') = 3"
  using fail_buffer_overflow_evicts_batch
    [of "overload_state [sample ''a'' 1, sample ''b'' 2, sample ''c'' 3] 0 []"
        "sample ''d'' 4" "[sample ''d'' 4]" "''down''" "()"]
  by (simp add: overload_state_def ro_ok_def buffer_ok_def pass_all_def sink_down_def
      filter_metric_tags_def)

lemma write_or_requeue_calls:
  assumes "buffer_ok (failMetrics ro)" and "batch \<noteq> []"
  shows "\<exists>err ro'. write_or_requeue ro batch = Inr (err, ro')
     \<and> metrics ro' = metrics ro
     \<and> sink_calls (Output ro') = sink_calls (Output ro) @ [batch]"
proof -
  obtain err s' where s: "sink_write (Output ro) (sink_state (Output ro)) batch = (err, s')"
    by (cases "sink_write (Output ro) (sink_state (Output ro)) batch")
  note w = write_metrics_eq [OF assms(2) s]
  show ?thesis
    unfolding write_or_requeue_eq [OF assms(1) w] by simp
qed

text \<open>
  C9. In a state as \<open>ro_ok\<close> describes, a metric that the filter lets pass, with tag
  rules configured: the metric that goes
  into the primary buffer is a new one, with the name, the fields and the timestamp of the
  one given and with the filtered tags. Either it is held at the tail of the primary
  buffer, or it completes a batch, and then the sink is called with what was held followed
  by it, and the primary buffer is empty.
\<close>

theorem AddMetric_buffers_filtered_tags:
  assumes "ro_ok ro"
    and "\<not> (IsActive (Filter (Config ro)) \<and> \<not> ShouldMetricPass (Filter (Config ro)) m)"
    and "TagExclude (Filter (Config ro)) \<noteq> [] \<or> TagInclude (Filter (Config ro)) \<noteq> []"
    and "m' = \<lparr>mName = mName m, mTags = FilterTags (Filter (Config ro)) (mTags m),
               mFields = mFields m, mTime = mTime m\<rparr>"
  shows "\<exists>ro'. AddMetric ro m = Inr ro'
     \<and> (if int (length (buf (metrics ro) @ [m'])) = MetricBatchSize ro
         then buf (metrics ro') = []
              \<and> sink_calls (Output ro') = sink_calls (Output ro) @ [buf (metrics ro) @ [m']]
         else ro' = ro\<lparr>metrics := (metrics ro)\<lparr>buf := buf (metrics ro) @ [m']\<rparr>\<rparr>)"
proof -
  let ?ro = "ro\<lparr>metrics := (metrics ro)\<lparr>buf := []\<rparr>\<rparr>"
  have f: "filter_metric_tags (Filter (Config ro)) m = m'"
    using assms(3,4) by (auto simp: filter_metric_tags_def NewMetric_def)
  have b: "buffer_ok (failMetrics ?ro)" using assms(1) by (simp add: ro_ok_def)
  have ne: "buf (metrics ro) @ [m'] \<noteq> []" by simp
  from write_or_requeue_calls [OF b ne]
  obtain err ro' where w: "write_or_requeue ?ro (buf (metrics ro) @ [m']) = Inr (err, ro')"
    "metrics ro' = metrics ?ro"
    "sink_calls (Output ro') = sink_calls (Output ?ro) @ [buf (metrics ro) @ [m']]"
    by blast
  show ?thesis
    unfolding AddMetric_eq [OF assms(1,2)] f Let_def
    using w by simp
qed

lemma exclude_host:
  "[''host'' \<mapsto> ''a'', ''region'' \<mapsto> ''b''] |` (- set [''host'']) = [''region'' \<mapsto> ''b'']"
  by (rule ext) (simp add: restrict_map_def)

theorem AddMetric_buffers_filtered_tags_witness:
  "\<exists>ro'. AddMetric (fresh_state tag_config) tagged_metric = Inr ro'
     \<and> ro' = (fresh_state tag_config)\<lparr>metrics := \<lparr>cap = 2,
          buf = [\<lparr>mName = ''cpu'', mTags = [''region'' \<mapsto> ''b''],
                  mFields = [''value'' \<mapsto> 7], mTime = 42\<rparr>], drops = 0\<rparr>\<rparr>"
proof -
  have m': "\<lparr>mName = ''cpu'', mTags = [''region'' \<mapsto> ''b''],
              mFields = [''value'' \<mapsto> 7], mTime = (42 :: int)\<rparr>
     = \<lparr>mName = mName tagged_metric,
        mTags = FilterTags (Filter (Config (fresh_state tag_config))) (mTags tagged_metric),
        mFields = mFields tagged_metric, mTime = mTime tagged_metric\<rparr>"
    by (simp add: fresh_state_def tag_config_def tagged_metric_def FilterTags_def exclude_host)
  have ok: "ro_ok (fresh_state tag_config)"
    by (simp add: fresh_state_def ro_ok_def buffer_ok_def)
  have acc: "\<not> (IsActive (Filter (Config (fresh_state tag_config)))
      \<and> \<not> ShouldMetricPass (Filter (Config (fresh_state tag_config))) tagged_metric)"
    by (simp add: fresh_state_def tag_config_def)
  have rules: "TagExclude (Filter (Config (fresh_state tag_config))) \<noteq> []
      \<or> TagInclude (Filter (Config (fresh_state tag_config))) \<noteq> []"
    by (simp add: fresh_state_def tag_config_def)
  from AddMetric_buffers_filtered_tags [OF ok acc rules m']
  show ?thesis by (simp add: fresh_state_def)
qed

section \<open>Properties of the explicit flush\<close>

lemma go_div_pos: "0 \<le> a \<Longrightarrow> 0 < b \<Longrightarrow> go_div a b = Inr (a div b)"
  by (cases "a = 0") (simp_all add: go_div_def)

lemma go_mod_pos: "0 \<le> a \<Longrightarrow> 0 < b \<Longrightarrow> go_mod a b = Inr (a mod b)"
  by (cases "a = 0") (simp_all add: go_mod_def)

lemma retry_batch_ok:
  assumes b: "buffer_ok (failMetrics ro)" and k: "0 \<le> k"
  shows "\<exists>ro'. retry_batch ro k = Inr ro'
     \<and> metrics ro' = metrics ro \<and> MetricBatchSize ro' = MetricBatchSize ro
     \<and> buffer_ok (failMetrics ro')
     \<and> length (buf (failMetrics ro)) - nat k \<le> length (buf (failMetrics ro'))"
proof -
  let ?f = "failMetrics ro"
  let ?batch = "take (nat k) (buf ?f)"
  let ?fb = "?f\<lparr>buf := drop (nat k) (buf ?f)\<rparr>"
  let ?ro = "ro\<lparr>failMetrics := ?fb\<rparr>"
  have B: "Batch ?f k = Inr (?batch, ?fb)" using k by (rule Batch_take)
  have ok: "buffer_ok (failMetrics ?ro)" using b by (auto simp: buffer_ok_def)
  have o: "overflow ?fb ?batch = 0"
    using b by (auto simp: overflow_def buffer_ok_def)
  from write_or_requeue_keeps [OF ok, of ?batch]
  obtain err ro' where w: "write_or_requeue ?ro ?batch = Inr (err, ro')"
    and m: "metrics ro' = metrics ?ro" "MetricBatchSize ro' = MetricBatchSize ?ro"
      "buffer_ok (failMetrics ro')"
    and l: "buf (failMetrics ro') = buf (failMetrics ?ro)
          \<or> buf (failMetrics ro')
               = drop (overflow (failMetrics ?ro) ?batch) (buf (failMetrics ?ro) @ ?batch)"
    by blast
  from l have "length (buf ?f) - nat k \<le> length (buf (failMetrics ro'))"
    by (auto simp: o)
  with w m show ?thesis
    by (simp add: retry_batch_def B)
qed

lemma retry_batch_zero: "retry_batch ro 0 = Inr ro"
  by (simp add: retry_batch_def Batch_take write_or_requeue_def write_metrics_Nil)


lemma retry_batches_ok:
  assumes "buffer_ok (failMetrics ro)" and "\<forall>k \<in> set ks. 0 \<le> k"
  shows "\<exists>ro'. retry_batches ro ks = Inr ro'
     \<and> metrics ro' = metrics ro \<and> MetricBatchSize ro' = MetricBatchSize ro
     \<and> buffer_ok (failMetrics ro')"
  using assms
proof (induction ks arbitrary: ro)
  case Nil
  then show ?case by simp
next
  case (Cons k ks)
  from Cons.prems(2) have k: "0 \<le> k" and ks: "\<forall>k \<in> set ks. 0 \<le> k" by simp_all
  from retry_batch_ok [OF Cons.prems(1) k]
  obtain ro' where r: "retry_batch ro k = Inr ro'" "buffer_ok (failMetrics ro')"
    "metrics ro' = metrics ro" "MetricBatchSize ro' = MetricBatchSize ro"
    by blast
  from Cons.IH [OF r(2) ks] r show ?case by simp
qed

lemma drain_loop_eq:
  assumes "0 < N" and "0 \<le> bufLen"
  shows "buffer_ok (failMetrics ro) \<Longrightarrow> MetricBatchSize ro = N \<Longrightarrow> i < nB \<Longrightarrow> n = nat (nB - 1 - i) \<Longrightarrow>
     drain_loop i nB bufLen N ro = retry_batches ro (replicate n N @ [bufLen mod N])"
proof (induction n arbitrary: i ro)
  case 0
  then have i: "i = nB - 1" by simp
  have e: "drain_loop nB nB bufLen (bufLen mod N) r = Inr r" for r :: "('a, 'b) RunningOutput"
    by (subst drain_loop.simps) simp
  have "thenR (retry_batch ro (bufLen mod N)) Inr = retry_batch ro (bufLen mod N)"
    by (cases "retry_batch ro (bufLen mod N)") simp_all
  then show ?case
    unfolding i
    by (subst drain_loop.simps) (simp add: go_mod_pos assms "0.prems"(2) e [abs_def])
next
  case (Suc n)
  then have i: "i < nB" "i \<noteq> nB - 1" by simp_all
  have k: "0 \<le> N" using assms by simp
  from retry_batch_ok [OF Suc.prems(1) k]
  obtain ro' where r: "retry_batch ro N = Inr ro'" "buffer_ok (failMetrics ro')"
    "metrics ro' = metrics ro" "MetricBatchSize ro' = MetricBatchSize ro"
    by blast
  have "drain_loop (i + 1) nB bufLen N ro' = retry_batches ro' (replicate n N @ [bufLen mod N])"
    by (rule Suc.IH) (use Suc.prems r in simp_all)
  then show ?case
    by (subst drain_loop.simps) (simp add: i r)
qed

lemma drain_eq:
  assumes "ro_ok ro" and "buf (failMetrics ro) \<noteq> []"
  shows "drain ro = retry_batches ro (drain_sizes (Len (failMetrics ro)) (MetricBatchSize ro))"
proof -
  from assms(1) have N: "0 < MetricBatchSize ro" and b: "buffer_ok (failMetrics ro)"
    by (simp_all add: ro_ok_def)
  have l: "0 \<le> Len (failMetrics ro)" by (simp add: Len_def)
  have q: "0 \<le> Len (failMetrics ro) div MetricBatchSize ro"
    using N l by (simp add: pos_imp_zdiv_nonneg_iff)
  have "drain_loop 0 (Len (failMetrics ro) div MetricBatchSize ro + 1) (Len (failMetrics ro))
          (MetricBatchSize ro) ro
        = retry_batches ro (replicate (nat (Len (failMetrics ro) div MetricBatchSize ro))
             (MetricBatchSize ro) @ [Len (failMetrics ro) mod MetricBatchSize ro])"
    by (rule drain_loop_eq [OF N l b]) (use q in simp_all)
  with assms(2) show ?thesis
    by (simp add: drain_def IsEmpty_def Let_def go_div_pos [OF l N] drain_sizes_def)
qed

lemma drain_sizes_props:
  assumes "0 < N" and "0 \<le> len"
  shows "int (length (drain_sizes len N)) = len div N + 1"
    and "\<forall>k \<in> set (drain_sizes len N). 0 \<le> k"
    and "sum_list (drain_sizes len N) = len"
    and "j < length (drain_sizes len N) \<Longrightarrow>
         drain_sizes len N ! j = (if j = length (drain_sizes len N) - 1 then len mod N else N)"
proof -
  from assms have q: "0 \<le> len div N" by (simp add: pos_imp_zdiv_nonneg_iff)
  then show "int (length (drain_sizes len N)) = len div N + 1"
    by (simp add: drain_sizes_def)
  show "\<forall>k \<in> set (drain_sizes len N). 0 \<le> k"
    using assms by (auto simp: drain_sizes_def)
  show "sum_list (drain_sizes len N) = len"
    using q by (simp add: drain_sizes_def sum_list_replicate mult.commute)
  show "j < length (drain_sizes len N) \<Longrightarrow>
         drain_sizes len N ! j = (if j = length (drain_sizes len N) - 1 then len mod N else N)"
    by (auto simp: drain_sizes_def nth_append)
qed

lemma down_state_ok: "length held < 2 \<Longrightarrow> length failed \<le> 4 \<Longrightarrow> ro_ok (down_state held failed calls)"
  by (simp add: down_state_def ro_ok_def buffer_ok_def)





lemma drain_sizes_2_2: "drain_sizes 2 2 = [2, 0]"
  by (simp add: drain_sizes_def)





lemma drain_ok:
  assumes "ro_ok ro"
  shows "\<exists>ro1. drain ro = Inr ro1 \<and> metrics ro1 = metrics ro
     \<and> MetricBatchSize ro1 = MetricBatchSize ro \<and> buffer_ok (failMetrics ro1)"
proof (cases "buf (failMetrics ro) = []")
  case True
  with assms show ?thesis by (simp add: drain_def IsEmpty_def ro_ok_def)
next
  case False
  from assms have N: "0 < MetricBatchSize ro" and b: "buffer_ok (failMetrics ro)"
    by (simp_all add: ro_ok_def)
  have l: "0 \<le> Len (failMetrics ro)" by (simp add: Len_def)
  from retry_batches_ok [OF b drain_sizes_props(2) [OF N l]]
  show ?thesis by (simp add: drain_eq [OF assms False])
qed

text \<open>\<open>Write\<close> keeps the output stage in such a state, as \<open>AddMetric\<close> does.\<close>

lemma Write_ok:
  assumes "ro_ok ro"
  shows "\<exists>err ro'. Write ro = Inr (err, ro') \<and> ro_ok ro'
     \<and> drops (metrics ro') = drops (metrics ro)"
proof -
  from drain_ok [OF assms]
  obtain ro1 where d: "drain ro = Inr ro1" and m: "metrics ro1 = metrics ro"
    and n: "MetricBatchSize ro1 = MetricBatchSize ro" and b: "buffer_ok (failMetrics ro1)"
    by blast
  let ?ro = "ro1\<lparr>metrics := (metrics ro)\<lparr>buf := []\<rparr>\<rparr>"
  from assms have N: "0 < MetricBatchSize ro" "length (buf (metrics ro)) \<le> nat (MetricBatchSize ro)"
    "cap (metrics ro) = nat (MetricBatchSize ro)"
    by (simp_all add: ro_ok_def)
  then have B: "Batch (metrics ro1) (MetricBatchSize ro1)
      = Inr (buf (metrics ro), (metrics ro)\<lparr>buf := []\<rparr>)"
    by (simp add: Batch_take m n)
  have b': "buffer_ok (failMetrics ?ro)" using b by simp
  from write_or_requeue_keeps [OF b', of "buf (metrics ro)"]
  obtain err ro' where w: "write_or_requeue ?ro (buf (metrics ro)) = Inr (err, ro')"
    and k: "metrics ro' = metrics ?ro" "MetricBatchSize ro' = MetricBatchSize ?ro"
      "buffer_ok (failMetrics ro')"
    by blast
  from N k n have "ro_ok ro'" by (simp add: ro_ok_def)
  with w k show ?thesis by (simp add: Write_def d B)
qed

lemma concat_chop:
  "\<forall>k \<in> set ks. 0 \<le> k \<Longrightarrow> concat (chop ks xs) = take (nat (sum_list ks)) xs"
proof (induction ks arbitrary: xs)
  case Nil
  then show ?case by simp
next
  case (Cons k ks)
  then have k: "0 \<le> k" and ks: "\<forall>k \<in> set ks. 0 \<le> k" by simp_all
  from ks have s: "0 \<le> sum_list ks" by (simp add: sum_list_nonneg)
  have n: "nat (k + sum_list ks) = nat k + nat (sum_list ks)"
    using k s by (simp add: nat_add_distrib)
  show ?case
    using Cons.IH [OF ks, of "drop (nat k) xs"]
    by (simp add: n take_add)
qed

lemma retry_batch_empty:
  assumes "0 \<le> k" and "take (nat k) (buf (failMetrics ro)) = []"
  shows "retry_batch ro k = Inr ro"
proof -
  from assms(2) have d: "drop (nat k) (buf (failMetrics ro)) = buf (failMetrics ro)"
    by (cases "buf (failMetrics ro)") (auto simp: take_eq_Nil)
  have B: "Batch (failMetrics ro) k = Inr ([], failMetrics ro)"
    unfolding Batch_take [OF assms(1)] assms(2) d by simp
  show ?thesis
    unfolding retry_batch_def B
    by (simp add: write_or_requeue_def write_metrics_Nil)
qed

lemma retry_batch_sent:
  assumes b: "buffer_ok (failMetrics ro)" and k: "0 \<le> k"
    and batch: "batch = take (nat k) (buf (failMetrics ro))"
    and rest: "rest = drop (nat k) (buf (failMetrics ro))"
    and ne: "batch \<noteq> []"
    and s: "sink_write (Output ro) (sink_state (Output ro)) batch = (a, s')"
  shows "retry_batch ro k =
     Inr (ro\<lparr>failMetrics := (failMetrics ro)\<lparr>buf := (if a \<noteq> None then rest @ batch else rest)\<rparr>,
             Output := (Output ro)\<lparr>sink_state := s',
                                    sink_calls := sink_calls (Output ro) @ [batch]\<rparr>,
             logged := (if a = None \<and> \<not> Quiet ro then logged ro @ [(length batch, Name ro)]
                        else logged ro)\<rparr>)"
proof -
  let ?f = "failMetrics ro"
  let ?fb = "?f\<lparr>buf := rest\<rparr>"
  let ?ro = "ro\<lparr>failMetrics := ?fb\<rparr>"
  have B: "Batch ?f k = Inr (batch, ?fb)"
    unfolding batch rest using k by (rule Batch_take)
  have ok: "buffer_ok (failMetrics ?ro)" using b by (auto simp: buffer_ok_def rest)
  have o: "overflow ?fb batch = 0"
    using b by (auto simp: overflow_def buffer_ok_def batch rest)
  have s': "sink_write (Output ?ro) (sink_state (Output ?ro)) batch = (a, s')"
    using s by simp
  note w = write_metrics_eq [OF ne s']
  show ?thesis
    unfolding retry_batch_def B
    by (simp add: write_or_requeue_eq [OF ok w] o)
qed

lemma retry_batches_requeue:
  "\<forall>k \<in> set ks. 0 \<le> k \<Longrightarrow> buffer_ok (failMetrics r) \<Longrightarrow>
   buf (failMetrics r) = rest @ q \<Longrightarrow> sum_list ks \<le> int (length rest) \<Longrightarrow>
   \<exists>r'. retry_batches r ks = Inr r'
     \<and> failMetrics r' = (failMetrics r)
          \<lparr>buf := drop (nat (sum_list ks)) rest @ q
                   @ concat (failed_batches (sink_write (Output r)) (sink_state (Output r))
                              (chop ks rest))\<rparr>
     \<and> sink_write (Output r') = sink_write (Output r)
     \<and> sink_calls (Output r') = sink_calls (Output r) @ filter (\<lambda>b. b \<noteq> []) (chop ks rest)
     \<and> metrics r' = metrics r \<and> MetricBatchSize r' = MetricBatchSize r"
proof (induction ks arbitrary: r rest q)
  case Nil
  have "(failMetrics r)\<lparr>buf := buf (failMetrics r)\<rparr> = failMetrics r" by simp
  with Nil show ?case by simp
next
  case (Cons k ks)
  from Cons.prems(1) have k: "0 \<le> k" and ks: "\<forall>k \<in> set ks. 0 \<le> k" by simp_all
  from ks have s: "0 \<le> sum_list ks" by (simp add: sum_list_nonneg)
  from Cons.prems(4) s have kl: "nat k \<le> length rest" by simp
  let ?batch = "take (nat k) rest"
  let ?rest = "drop (nat k) rest"
  have tk: "take (nat k) (buf (failMetrics r)) = ?batch"
    and dr: "drop (nat k) (buf (failMetrics r)) = ?rest @ q"
    using kl by (simp_all add: Cons.prems(3))
  have sl: "sum_list ks \<le> int (length ?rest)" using Cons.prems(4) k by simp
  have n: "nat (k + sum_list ks) = nat (sum_list ks) + nat k"
    using k s by (simp add: nat_add_distrib)
  have dd: "drop (nat (sum_list (k # ks))) rest = drop (nat (sum_list ks)) ?rest"
    by (simp add: n)
  show ?case
  proof (cases "?batch = []")
    case True
    then have e: "retry_batch r k = Inr r" using k by (simp add: retry_batch_empty tk)
    from True kl have rr: "?rest = rest" by (cases rest) (auto simp: take_eq_Nil)
    have b: "buf (failMetrics r) = ?rest @ q" by (simp add: rr Cons.prems(3))
    from Cons.IH [OF ks Cons.prems(2) b sl]
    show ?thesis unfolding dd using True by (simp add: e)
  next
    case False
    obtain a s' where a: "sink_write (Output r) (sink_state (Output r)) ?batch = (a, s')"
      by (cases "sink_write (Output r) (sink_state (Output r)) ?batch")
    let ?q = "q @ (if a \<noteq> None then ?batch else [])"
    let ?r = "r\<lparr>failMetrics := (failMetrics r)\<lparr>buf := (if a \<noteq> None then (?rest @ q) @ ?batch else ?rest @ q)\<rparr>,
             Output := (Output r)\<lparr>sink_state := s',
                                    sink_calls := sink_calls (Output r) @ [?batch]\<rparr>,
             logged := (if a = None \<and> \<not> Quiet r then logged r @ [(length ?batch, Name r)]
                        else logged r)\<rparr>"
    have e: "retry_batch r k = Inr ?r"
      by (rule retry_batch_sent [OF Cons.prems(2) k tk [symmetric] dr [symmetric] False a])
    have ok: "buffer_ok (failMetrics ?r)"
      using Cons.prems(2,3) by (auto simp: buffer_ok_def)
    have b: "buf (failMetrics ?r) = ?rest @ ?q" by simp
    from Cons.IH [OF ks ok b sl]
    obtain r' where r': "retry_batches ?r ks = Inr r'"
      and f: "failMetrics r' = (failMetrics ?r)
          \<lparr>buf := drop (nat (sum_list ks)) ?rest @ ?q
                   @ concat (failed_batches (sink_write (Output ?r)) (sink_state (Output ?r))
                              (chop ks ?rest))\<rparr>"
      and o: "sink_write (Output r') = sink_write (Output ?r)"
        "sink_calls (Output r') = sink_calls (Output ?r) @ filter (\<lambda>b. b \<noteq> []) (chop ks ?rest)"
        "metrics r' = metrics ?r" "MetricBatchSize r' = MetricBatchSize ?r"
      by blast
    have 1: "retry_batches r (k # ks) = Inr r'"
      by (simp only: retry_batches.simps e thenR.simps r')
    have 2: "failMetrics r' = (failMetrics r)
          \<lparr>buf := drop (nat (sum_list (k # ks))) rest @ q
                   @ concat (failed_batches (sink_write (Output r)) (sink_state (Output r))
                              (chop (k # ks) rest))\<rparr>"
      unfolding f dd using False a by simp
    have 3: "sink_calls (Output r') = sink_calls (Output r) @ filter (\<lambda>b. b \<noteq> []) (chop (k # ks) rest)"
      using o(2) False by simp
    from 1 2 3 o(1,3,4) show ?thesis by simp
  qed
qed

lemma drain_eq_all:
  assumes "ro_ok ro"
  shows "drain ro = retry_batches ro (drain_sizes (Len (failMetrics ro)) (MetricBatchSize ro))"
proof (cases "buf (failMetrics ro) = []")
  case True
  then have "drain_sizes (Len (failMetrics ro)) (MetricBatchSize ro) = [0]"
    by (simp add: drain_sizes_def Len_def)
  with True show ?thesis
    by (simp add: drain_def IsEmpty_def retry_batch_zero)
next
  case False
  with assms show ?thesis by (rule drain_eq)
qed

lemma drain_requeues:
  assumes "ro_ok ro"
  shows "\<exists>ro1. drain ro = Inr ro1
     \<and> failMetrics ro1 = (failMetrics ro)\<lparr>buf := drain_requeued ro\<rparr>
     \<and> sink_write (Output ro1) = sink_write (Output ro)
     \<and> sink_calls (Output ro1) = sink_calls (Output ro) @ filter (\<lambda>b. b \<noteq> []) (drain_batches ro)
     \<and> metrics ro1 = metrics ro \<and> MetricBatchSize ro1 = MetricBatchSize ro"
proof -
  from assms have N: "0 < MetricBatchSize ro" and b: "buffer_ok (failMetrics ro)"
    by (simp_all add: ro_ok_def)
  have l: "0 \<le> Len (failMetrics ro)" by (simp add: Len_def)
  note p = drain_sizes_props [OF N l]
  let ?ks = "drain_sizes (Len (failMetrics ro)) (MetricBatchSize ro)"
  have sl: "sum_list ?ks \<le> int (length (buf (failMetrics ro)))"
    unfolding p(3) by (simp add: Len_def)
  have bq: "buf (failMetrics ro) = buf (failMetrics ro) @ []" by simp
  have d0: "drop (nat (sum_list ?ks)) (buf (failMetrics ro)) = []"
    unfolding p(3) by (simp add: Len_def)
  from retry_batches_requeue [OF p(2) b bq sl]
  show ?thesis
    unfolding drain_eq_all [OF assms] d0 drain_requeued_def drain_batches_def
    by simp
qed

lemma concat_drain_batches:
  assumes "ro_ok ro"
  shows "concat (drain_batches ro) = buf (failMetrics ro)"
proof -
  from assms have N: "0 < MetricBatchSize ro" by (simp add: ro_ok_def)
  have l: "0 \<le> Len (failMetrics ro)" by (simp add: Len_def)
  note p = drain_sizes_props [OF N l]
  show ?thesis
    unfolding drain_batches_def concat_chop [OF p(2)] p(3)
    by (simp add: Len_def)
qed

text \<open>\<open>Write\<close> as a whole: the result and the state after the drain and after the last step.\<close>

lemma Write_final_state:
  assumes "ro_ok ro"
  shows "\<exists>ro1 ro'. drain ro = Inr ro1
     \<and> Batch (metrics ro1) (MetricBatchSize ro1)
           = Inr (buf (metrics ro), (metrics ro)\<lparr>buf := []\<rparr>)
     \<and> Write ro =
           Inr (if buf (metrics ro) = [] then None
                else fst (sink_write (Output ro1) (sink_state (Output ro1)) (buf (metrics ro))),
                ro')
     \<and> concat (drain_batches ro) = buf (failMetrics ro)
     \<and> failMetrics ro1 = (failMetrics ro)\<lparr>buf := drain_requeued ro\<rparr>
     \<and> sink_write (Output ro1) = sink_write (Output ro)
     \<and> sink_calls (Output ro1)
           = sink_calls (Output ro) @ filter (\<lambda>b. b \<noteq> []) (drain_batches ro)
     \<and> buf (metrics ro') = []
     \<and> sink_calls (Output ro')
           = sink_calls (Output ro1) @ (if buf (metrics ro) = [] then [] else [buf (metrics ro)])
     \<and> failMetrics ro' =
           (if buf (metrics ro) \<noteq> []
               \<and> fst (sink_write (Output ro1) (sink_state (Output ro1)) (buf (metrics ro))) \<noteq> None
            then (failMetrics ro1)
                   \<lparr>buf := drop (overflow (failMetrics ro1) (buf (metrics ro)))
                             (buf (failMetrics ro1) @ buf (metrics ro)),
                    drops := drops (failMetrics ro1)
                             + of_nat (overflow (failMetrics ro1) (buf (metrics ro)))\<rparr>
            else failMetrics ro1)"
proof -
  from drain_requeues [OF assms]
  obtain ro1 where d: "drain ro = Inr ro1"
    and f: "failMetrics ro1 = (failMetrics ro)\<lparr>buf := drain_requeued ro\<rparr>"
    and sw: "sink_write (Output ro1) = sink_write (Output ro)"
    and c: "sink_calls (Output ro1)
           = sink_calls (Output ro) @ filter (\<lambda>b. b \<noteq> []) (drain_batches ro)"
    and m: "metrics ro1 = metrics ro" and n: "MetricBatchSize ro1 = MetricBatchSize ro"
    by blast
  from drain_ok [OF assms] d have b: "buffer_ok (failMetrics ro1)" by auto
  note cc = concat_drain_batches [OF assms]
  let ?batch = "buf (metrics ro)"
  let ?ro = "ro1\<lparr>metrics := (metrics ro)\<lparr>buf := []\<rparr>\<rparr>"
  from assms have N: "0 < MetricBatchSize ro" "length ?batch \<le> nat (MetricBatchSize ro)"
    by (simp_all add: ro_ok_def)
  then have B: "Batch (metrics ro1) (MetricBatchSize ro1) = Inr (?batch, (metrics ro)\<lparr>buf := []\<rparr>)"
    by (simp add: Batch_take m n)
  have b': "buffer_ok (failMetrics ?ro)" using b by simp
  have W: "Write ro = write_or_requeue ?ro ?batch"
    by (simp add: Write_def d B)
  show ?thesis
  proof (cases "?batch = []")
    case True
    have w: "write_metrics ?ro ?batch = (None, ?ro)"
      by (simp add: True write_metrics_Nil)
    have "Write ro = Inr (None, ?ro)"
      unfolding W write_or_requeue_eq [OF b' w] by simp
    with d B cc f sw c True show ?thesis by simp
  next
    case False
    obtain a s' where s: "sink_write (Output ?ro) (sink_state (Output ?ro)) ?batch = (a, s')"
      by (cases "sink_write (Output ?ro) (sink_state (Output ?ro)) ?batch")
    then have a: "fst (sink_write (Output ro1) (sink_state (Output ro1)) ?batch) = a"
      by simp
    note w = write_metrics_eq [OF False s]
    let ?sent = "?ro\<lparr>Output := (Output ?ro)\<lparr>sink_state := s',
                     sink_calls := sink_calls (Output ?ro) @ [?batch]\<rparr>,
                   logged := (if a = None \<and> \<not> Quiet ?ro
                              then logged ?ro @ [(length ?batch, Name ?ro)] else logged ?ro)\<rparr>"
    let ?ro' = "if a \<noteq> None
                then ?sent\<lparr>failMetrics := (failMetrics ?ro)
                       \<lparr>buf := drop (overflow (failMetrics ?ro) ?batch)
                                 (buf (failMetrics ?ro) @ ?batch),
                        drops := drops (failMetrics ?ro)
                                 + of_nat (overflow (failMetrics ?ro) ?batch)\<rparr>\<rparr>
                else ?sent"
    have e: "Write ro = Inr (a, ?ro')"
      unfolding W by (rule write_or_requeue_eq [OF b' w])
    have 3: "Write ro = Inr (if ?batch = [] then None
                else fst (sink_write (Output ro1) (sink_state (Output ro1)) ?batch), ?ro')"
      unfolding e using False a by simp
    have 7: "buf (metrics ?ro') = []" by simp
    have 8: "sink_calls (Output ?ro')
           = sink_calls (Output ro1) @ (if ?batch = [] then [] else [?batch])"
      using False by simp
    have 9: "failMetrics ?ro' =
           (if ?batch \<noteq> []
               \<and> fst (sink_write (Output ro1) (sink_state (Output ro1)) ?batch) \<noteq> None
            then (failMetrics ro1)
                   \<lparr>buf := drop (overflow (failMetrics ro1) ?batch)
                             (buf (failMetrics ro1) @ ?batch),
                    drops := drops (failMetrics ro1)
                             + of_nat (overflow (failMetrics ro1) ?batch)\<rparr>
            else failMetrics ro1)"
      unfolding a using False by simp
    show ?thesis
      by (rule exI [where x = ro1], rule exI [where x = "?ro'"])
        (intro conjI d B 3 cc f sw c 7 8 9)
  qed
qed

text \<open>
  C5. In a state as \<open>ro_ok\<close> describes \<open>Write\<close> returns, and what it returns as the error
  is decided by the last step alone: after the fail buffer has been drained the batch taken
  from the primary buffer is all that this buffer held; the result is \<open>nil\<close> when that
  batch is empty, and otherwise the answer of the sink to that batch (an error exactly when
  this send fails). Whatever the sink answered while the fail buffer was drained is not in
  the result; it is in the state. One step of the drain on which the sink answers an error
  puts the batch back at the tail of the fail buffer, behind what the step left there. The
  batches of the drain make up the fail buffer as it
  was; the sink has been called with each non-empty one of them in turn; and after the
  drain the fail buffer holds, with its capacity and its drop counter as before, the
  batches on which the sink answered an error, in the order of their sending, and nothing
  else. After the last step the primary buffer is empty, the sink has been called with its
  batch unless that was empty, and when this send failed the batch is added to the fail
  buffer as \<open>Add\<close> does; otherwise the fail buffer is as the drain left it.
\<close>

theorem Write_error_is_final_flush:
  assumes "ro_ok ro"
  shows "(\<exists>ro1 ro'. drain ro = Inr ro1
     \<and> Batch (metrics ro1) (MetricBatchSize ro1)
           = Inr (buf (metrics ro), (metrics ro)\<lparr>buf := []\<rparr>)
     \<and> Write ro =
           Inr (if buf (metrics ro) = [] then None
                else fst (sink_write (Output ro1) (sink_state (Output ro1)) (buf (metrics ro))),
                ro')
     \<and> concat (drain_batches ro) = buf (failMetrics ro)
     \<and> failMetrics ro1 = (failMetrics ro)\<lparr>buf := drain_requeued ro\<rparr>
     \<and> sink_write (Output ro1) = sink_write (Output ro)
     \<and> sink_calls (Output ro1)
           = sink_calls (Output ro) @ filter (\<lambda>b. b \<noteq> []) (drain_batches ro)
     \<and> buf (metrics ro') = []
     \<and> sink_calls (Output ro')
           = sink_calls (Output ro1) @ (if buf (metrics ro) = [] then [] else [buf (metrics ro)])
     \<and> failMetrics ro' =
           (if buf (metrics ro) \<noteq> []
               \<and> fst (sink_write (Output ro1) (sink_state (Output ro1)) (buf (metrics ro))) \<noteq> None
            then (failMetrics ro1)
                   \<lparr>buf := drop (overflow (failMetrics ro1) (buf (metrics ro)))
                             (buf (failMetrics ro1) @ buf (metrics ro)),
                    drops := drops (failMetrics ro1)
                             + of_nat (overflow (failMetrics ro1) (buf (metrics ro)))\<rparr>
            else failMetrics ro1))
   \<and> (\<forall>(r :: ('a, 'b) RunningOutput) k e s'.
         buffer_ok (failMetrics r) \<and> 0 \<le> k
         \<and> take (nat k) (buf (failMetrics r)) \<noteq> []
         \<and> sink_write (Output r) (sink_state (Output r)) (take (nat k) (buf (failMetrics r)))
               = (Some e, s')
         \<longrightarrow> (\<exists>r'. retry_batch r k = Inr r'
                \<and> failMetrics r' = (failMetrics r)
                     \<lparr>buf := drop (nat k) (buf (failMetrics r))
                              @ take (nat k) (buf (failMetrics r))\<rparr>
                \<and> sink_calls (Output r')
                     = sink_calls (Output r) @ [take (nat k) (buf (failMetrics r))]))"
proof (intro conjI allI impI)
  show "\<exists>ro1 ro'. drain ro = Inr ro1
     \<and> Batch (metrics ro1) (MetricBatchSize ro1)
           = Inr (buf (metrics ro), (metrics ro)\<lparr>buf := []\<rparr>)
     \<and> Write ro =
           Inr (if buf (metrics ro) = [] then None
                else fst (sink_write (Output ro1) (sink_state (Output ro1)) (buf (metrics ro))),
                ro')
     \<and> concat (drain_batches ro) = buf (failMetrics ro)
     \<and> failMetrics ro1 = (failMetrics ro)\<lparr>buf := drain_requeued ro\<rparr>
     \<and> sink_write (Output ro1) = sink_write (Output ro)
     \<and> sink_calls (Output ro1)
           = sink_calls (Output ro) @ filter (\<lambda>b. b \<noteq> []) (drain_batches ro)
     \<and> buf (metrics ro') = []
     \<and> sink_calls (Output ro')
           = sink_calls (Output ro1) @ (if buf (metrics ro) = [] then [] else [buf (metrics ro)])
     \<and> failMetrics ro' =
           (if buf (metrics ro) \<noteq> []
               \<and> fst (sink_write (Output ro1) (sink_state (Output ro1)) (buf (metrics ro))) \<noteq> None
            then (failMetrics ro1)
                   \<lparr>buf := drop (overflow (failMetrics ro1) (buf (metrics ro)))
                             (buf (failMetrics ro1) @ buf (metrics ro)),
                    drops := drops (failMetrics ro1)
                             + of_nat (overflow (failMetrics ro1) (buf (metrics ro)))\<rparr>
            else failMetrics ro1)"
    by (rule Write_final_state [OF assms])
next
  fix r :: "('a, 'b) RunningOutput" and k e s'
  assume a: "buffer_ok (failMetrics r) \<and> 0 \<le> k
         \<and> take (nat k) (buf (failMetrics r)) \<noteq> []
         \<and> sink_write (Output r) (sink_state (Output r)) (take (nat k) (buf (failMetrics r)))
               = (Some e, s')"
  then have b: "buffer_ok (failMetrics r)" and k: "0 \<le> k"
    and ne: "take (nat k) (buf (failMetrics r)) \<noteq> []"
    and s: "sink_write (Output r) (sink_state (Output r)) (take (nat k) (buf (failMetrics r)))
               = (Some e, s')"
    by simp_all
  show "\<exists>r'. retry_batch r k = Inr r'
                \<and> failMetrics r' = (failMetrics r)
                     \<lparr>buf := drop (nat k) (buf (failMetrics r))
                              @ take (nat k) (buf (failMetrics r))\<rparr>
                \<and> sink_calls (Output r')
                     = sink_calls (Output r) @ [take (nat k) (buf (failMetrics r))]"
    unfolding retry_batch_sent [OF b k refl refl ne s] by simp
qed

theorem Write_error_is_final_flush_witness:
  "(\<exists>ro'. Write (down_state [sample ''c'' 3] [sample ''a'' 1, sample ''b'' 2] [])
           = Inr (Some ''down'', ro')
      \<and> buf (failMetrics ro') = [sample ''a'' 1, sample ''b'' 2, sample ''c'' 3]
      \<and> drops (failMetrics ro') = 0
      \<and> buf (metrics ro') = []
      \<and> sink_calls (Output ro') = [[sample ''a'' 1, sample ''b'' 2], [sample ''c'' 3]])
   \<and> (\<exists>ro'. Write (down_state [] [sample ''a'' 1, sample ''b'' 2] []) = Inr (None, ro')
      \<and> buf (failMetrics ro') = [sample ''a'' 1, sample ''b'' 2]
      \<and> drops (failMetrics ro') = 0
      \<and> buf (metrics ro') = []
      \<and> sink_calls (Output ro') = [[sample ''a'' 1, sample ''b'' 2]])
   \<and> (\<exists>ro'. Write (recovering_state [sample ''a'' 1, sample ''b'' 2, sample ''c'' 3])
           = Inr (None, ro')
      \<and> buf (failMetrics ro') = [sample ''a'' 1, sample ''b'' 2]
      \<and> drops (failMetrics ro') = 0
      \<and> sink_calls (Output ro') = [[sample ''a'' 1, sample ''b'' 2], [sample ''c'' 3]])
   \<and> (\<exists>r'. retry_batch (down_state [] [sample ''a'' 1, sample ''b'' 2, sample ''c'' 3] []) 2
           = Inr r'
      \<and> buf (failMetrics r') = [sample ''c'' 3, sample ''a'' 1, sample ''b'' 2]
      \<and> sink_calls (Output r') = [[sample ''a'' 1, sample ''b'' 2]])"
proof -
  let ?a = "sample ''a'' 1" and ?b = "sample ''b'' 2" and ?c = "sample ''c'' 3"
  have ok: "ro_ok (down_state held [?a, ?b] [])" if "length held < 2" for held
    using that by (simp add: down_state_ok)
  have s: "sink_write (Output (down_state held failed calls)) st ms = (Some ''down'', st)"
    for held failed calls st ms
    by (simp add: down_state_def sink_down_def)
  have bt: "drain_batches (down_state held [?a, ?b] []) = [[?a, ?b], []]" for held
    by (simp add: drain_batches_def down_state_def Len_def drain_sizes_2_2)
  have rq: "drain_requeued (down_state held [?a, ?b] []) = [?a, ?b]" for held
    unfolding drain_requeued_def bt by (simp add: s)
  have 1: "\<exists>ro'. Write (down_state [?c] [?a, ?b] []) = Inr (Some ''down'', ro')
      \<and> buf (failMetrics ro') = [?a, ?b, ?c] \<and> drops (failMetrics ro') = 0
      \<and> buf (metrics ro') = [] \<and> sink_calls (Output ro') = [[?a, ?b], [?c]]"
    using Write_error_is_final_flush [OF ok [of "[?c]"], THEN conjunct1]
    unfolding rq bt
    by (auto simp: s) (simp_all add: down_state_def overflow_def sink_down_def)
  have 2: "\<exists>ro'. Write (down_state [] [?a, ?b] []) = Inr (None, ro')
      \<and> buf (failMetrics ro') = [?a, ?b] \<and> drops (failMetrics ro') = 0
      \<and> buf (metrics ro') = [] \<and> sink_calls (Output ro') = [[?a, ?b]]"
    using Write_error_is_final_flush [OF ok [of "[]"], THEN conjunct1]
    unfolding rq bt
    by (auto simp: s) (simp_all add: down_state_def overflow_def sink_down_def)
  let ?X = "recovering_state [?a, ?b, ?c]"
  have ok3: "ro_ok ?X" by (simp add: recovering_state_def ro_ok_def buffer_ok_def)
  have sz: "drain_sizes 3 2 = [2, 1]" by (simp add: drain_sizes_def)
  have bt3: "drain_batches ?X = [[?a, ?b], [?c]]"
    by (simp add: drain_batches_def recovering_state_def Len_def sz)
  have rq3: "drain_requeued ?X = [?a, ?b]"
    unfolding drain_requeued_def bt3 by (simp add: recovering_state_def sink_once_down_def)
  have 3: "\<exists>ro'. Write ?X = Inr (None, ro')
      \<and> buf (failMetrics ro') = [?a, ?b] \<and> drops (failMetrics ro') = 0
      \<and> sink_calls (Output ro') = [[?a, ?b], [?c]]"
    using Write_error_is_final_flush [OF ok3, THEN conjunct1]
    unfolding rq3 bt3
    by (auto simp: recovering_state_def sink_once_down_def)
  have 4: "\<exists>r'. retry_batch (down_state [] [?a, ?b, ?c] []) 2 = Inr r'
      \<and> buf (failMetrics r') = [?c, ?a, ?b] \<and> sink_calls (Output r') = [[?a, ?b]]"
    using Write_error_is_final_flush [OF ok [of "[]"], THEN conjunct2, rule_format,
        of "down_state [] [?a, ?b, ?c] []" 2 "''down''" "()"]
    by (auto simp: down_state_def buffer_ok_def sink_down_def)
  from 1 2 3 4 show ?thesis by simp
qed

end
